theory Spec2Isabelle
  imports Complex_Main
begin

section \<open>Errors\<close>

text \<open>
  The Python exceptions the pass can raise, as values. An \<open>IndexError\<close> carries the
  subscript expression that raised it, so that the three subscripts of the pass
  (\<^verbatim>\<open>run[0]\<close>, \<^verbatim>\<open>params[0]\<close>, \<^verbatim>\<open>new_circ.data[0]\<close>) can be told apart.
\<close>

datatype subscript = Run0 | Params0 | NewCircData0

datatype error = IndexError subscript | KeyError string | ValueError

section \<open>The basis selector: \<open>Optimize1qGatesDecomposition.__init__\<close>\<close>

text \<open>
  \<^verbatim>\<open>one_qubit_decompose.ONE_QUBIT_EULER_BASIS_GATES\<close> is a dictionary from Euler basis
  names to lists of gate names. Its contents are not part of this module, so the table
  is a parameter: an association list in the dictionary's iteration order. A Python
  dictionary has no repeated key, which is \<open>distinct (map fst tbl)\<close>.
\<close>

type_synonym euler_basis_gates = "(string \<times> string list) list"

text \<open>
  The object built by \<^verbatim>\<open>OneQubitEulerDecomposer(euler_basis_name)\<close>; \<open>basis\<close> is its
  attribute. One object is built for a key of the table, at most once, so two of them
  are the same object exactly when they have the same name. The constructor belongs to
  the decomposition library and raises on a basis name it does not know. It is called
  with keys of the table only (line 59), and every key of the table is assumed to be a
  name it knows: the call always returns the object.
\<close>

datatype decomposer = OneQubitEulerDecomposer (basis: string)

text \<open>\<^verbatim>\<open>euler_basis_gates[k]\<close>: a missing key raises.\<close>

definition getitem :: "euler_basis_gates \<Rightarrow> string \<Rightarrow> error + string list" where
  "getitem tbl k = (case map_of tbl k of None \<Rightarrow> Inl (KeyError k) | Some g \<Rightarrow> Inr g)"

text \<open>\<^verbatim>\<open>list.remove(x)\<close>: drops the first occurrence, raises when there is none.\<close>

definition list_remove :: "'a \<Rightarrow> 'a list \<Rightarrow> error + 'a list" where
  "list_remove x xs = (if x \<in> set xs then Inr (remove1 x xs) else Inl ValueError)"

text \<open>
  The inner loop \<^verbatim>\<open>for base in basis_copy: ... else: ...\<close> (lines 49 to 60). The first
  list is what is left of \<open>basis_copy\<close>, the second is \<open>self.basis\<close>. The result pairs
  \<open>self.basis\<close> with a flag: \<open>True\<close> when the loop ran to its end (the \<open>else\<close>
  clause of the \<open>for\<close> runs), \<open>False\<close> when it left through \<open>break\<close>.
\<close>

fun prune :: "euler_basis_gates \<Rightarrow> string list \<Rightarrow> decomposer list \<Rightarrow> decomposer list
    \<Rightarrow> error + (bool \<times> decomposer list)" where
  "prune tbl gates [] self_basis = Inr (True, self_basis)"
| "prune tbl gates (base # basis_copy) self_basis =
     (case getitem tbl (basis base) of
        Inl e \<Rightarrow> Inl e
      | Inr base_gates \<Rightarrow>
          if set base_gates \<subseteq> set gates then
            (case list_remove base self_basis of
               Inl e \<Rightarrow> Inl e
             | Inr self_basis' \<Rightarrow> prune tbl gates basis_copy self_basis')
          else if set gates \<subseteq> set base_gates then Inr (False, self_basis)
          else prune tbl gates basis_copy self_basis)"

text \<open>
  The outer loop \<^verbatim>\<open>for euler_basis_name, gates in euler_basis_gates.items()\<close> (lines 46
  to 60), over the items still to visit.
\<close>

fun select :: "euler_basis_gates \<Rightarrow> string list \<Rightarrow> euler_basis_gates \<Rightarrow> decomposer list
    \<Rightarrow> error + decomposer list" where
  "select tbl basis_arg [] self_basis = Inr self_basis"
| "select tbl basis_arg ((euler_basis_name, gates) # items) self_basis =
     (if set gates \<subseteq> set basis_arg then
        (case prune tbl gates self_basis self_basis of
           Inl e \<Rightarrow> Inl e
         | Inr (finished, self_basis') \<Rightarrow>
             select tbl basis_arg items
               (if finished then self_basis' @ [OneQubitEulerDecomposer euler_basis_name]
                else self_basis'))
      else select tbl basis_arg items self_basis)"

text \<open>
  \<^verbatim>\<open>__init__(self, basis=None)\<close>: the value of \<open>self.basis\<close> afterwards. \<^verbatim>\<open>if basis:\<close>
  is false for \<open>None\<close> and for the empty list, and \<open>self.basis\<close> stays \<open>None\<close> then.
\<close>

definition init :: "euler_basis_gates \<Rightarrow> string list option \<Rightarrow> error + decomposer list option" where
  "init tbl basis_arg =
     (case basis_arg of
        None \<Rightarrow> Inr None
      | Some b \<Rightarrow>
          if b = [] then Inr None
          else (case select tbl b tbl [] of Inl e \<Rightarrow> Inl e | Inr bs \<Rightarrow> Inr (Some bs)))"

text \<open>The gate-name set of a selected decomposer's basis, read from the table.\<close>

definition gate_set :: "euler_basis_gates \<Rightarrow> decomposer \<Rightarrow> string set" where
  "gate_set tbl d = (case map_of tbl (basis d) of None \<Rightarrow> {} | Some g \<Rightarrow> set g)"

text \<open>
  The selected list has no two members, at different positions, with the gate-name set
  of one contained in the gate-name set of the other.
\<close>

definition no_subset_pair :: "euler_basis_gates \<Rightarrow> decomposer list \<Rightarrow> bool" where
  "no_subset_pair tbl bs \<longleftrightarrow>
     (\<forall>i < length bs. \<forall>j < length bs.
        i \<noteq> j \<longrightarrow> \<not> gate_set tbl (bs ! i) \<subseteq> gate_set tbl (bs ! j))"

text \<open>
  The invariant of the outer loop: \<open>self.basis\<close> has no repeated member, every member
  names a key of the table whose gates all lie in the requested basis, and no member's
  gate-name set is contained in another member's.
\<close>

definition selectable :: "euler_basis_gates \<Rightarrow> string list \<Rightarrow> decomposer list \<Rightarrow> bool" where
  "selectable tbl basis_arg bs \<longleftrightarrow>
     distinct bs \<and>
     (\<forall>d \<in> set bs. basis d \<in> fst ` set tbl \<and> gate_set tbl d \<subseteq> set basis_arg) \<and>
     (\<forall>x \<in> set bs. \<forall>y \<in> set bs. x \<noteq> y \<longrightarrow> \<not> gate_set tbl x \<subseteq> gate_set tbl y)"

section \<open>The run optimizer: \<open>Optimize1qGatesDecomposition.run\<close>\<close>

subsection \<open>Gates, nodes and the external collaborators\<close>

text \<open>
  A gate object as far as the pass reads it: its \<open>name\<close>, its \<open>params\<close> (the pass
  applies \<^verbatim>\<open>float\<close> to the first one; a float is idealised as a real), the array
  its \<^verbatim>\<open>to_matrix()\<close> returns, and whether \<^verbatim>\<open>isinstance(op, U3Gate)\<close> holds.
\<close>

record gate =
  name :: string
  params :: "real list"
  to_matrix :: "complex list list"
  is_U3Gate :: bool

text \<open>A node of the graph: the pass reads \<open>node.op\<close> only; \<open>node_id\<close> tells nodes apart.\<close>

record dagnode =
  node_id :: nat
  op :: gate

text \<open>
  What the pass calls and this module does not define: the graph's
  \<^verbatim>\<open>collect_1q_runs\<close>, \<^verbatim>\<open>remove_op_node\<close> and \<^verbatim>\<open>substitute_node_with_dag\<close>, the converter
  \<^verbatim>\<open>circuit_to_dag\<close>, the constructor \<^verbatim>\<open>Operator(op)\<close> and its \<^verbatim>\<open>compose\<close>, and the call
  \<^verbatim>\<open>decomposer(operator)\<close> of a \<^verbatim>\<open>OneQubitEulerDecomposer\<close>. They are parameters: \<open>'g\<close> is
  the type of graphs, \<open>'d\<close> of the graphs built from a circuit, \<open>'m\<close> of operators. A
  circuit is the list of its gates: \<^verbatim>\<open>len(circ)\<close> is its length and
  \<^verbatim>\<open>circ.data[0][0]\<close> its first gate.
\<close>

record ('g, 'd, 'm) env =
  collect_1q_runs :: "'g \<Rightarrow> dagnode list list"
  remove_op_node :: "'g \<Rightarrow> dagnode \<Rightarrow> 'g"
  substitute_node_with_dag :: "'g \<Rightarrow> dagnode \<Rightarrow> 'd \<Rightarrow> 'g"
  circuit_to_dag :: "gate list \<Rightarrow> 'd"
  Operator :: "gate \<Rightarrow> 'm"
  compose :: "'m \<Rightarrow> gate \<Rightarrow> 'm"
  decompose :: "decomposer \<Rightarrow> 'm \<Rightarrow> gate list"

subsection \<open>numpy\<close>

text \<open>\<^verbatim>\<open>np.eye(2)\<close>, and \<^verbatim>\<open>np.array_equal\<close>: same shape and same entries, no tolerance.\<close>

definition identity_matrix :: "complex list list" where
  "identity_matrix = [[1, 0], [0, 1]]"

definition array_equal :: "complex list list \<Rightarrow> complex list list \<Rightarrow> bool" where
  "array_equal a b \<longleftrightarrow> a = b"

text \<open>\<^verbatim>\<open>np.isclose(a, b, rtol, atol)\<close> on finite numbers: \<open>|a - b| \<le> atol + rtol * |b|\<close>.\<close>

definition isclose :: "real \<Rightarrow> real \<Rightarrow> real \<Rightarrow> real \<Rightarrow> bool" where
  "isclose a b rtol atol \<longleftrightarrow> \<bar>a - b\<bar> \<le> atol + rtol * \<bar>b\<bar>"

text \<open>\<^verbatim>\<open>np.isclose(float(p), [0, np.pi/2], atol=1e-12, rtol=0).any()\<close>\<close>

definition isclose_0_or_half_pi :: "real \<Rightarrow> bool" where
  "isclose_0_or_half_pi p \<longleftrightarrow> isclose p 0 0 (1 / 10 ^ 12) \<or> isclose p (pi / 2) 0 (1 / 10 ^ 12)"

subsection \<open>The body of the loop over the runs\<close>

text \<open>
  Lines 77 to 91: what happens before candidates are computed. \<open>Remove n\<close> is the first
  \<^verbatim>\<open>continue\<close> (the node is removed), \<open>Skip\<close> the second one, and \<open>Process single_u3\<close>
  is falling through to line 93 with that value of the flag \<open>single_u3\<close>.
\<close>

datatype precheck_result = Remove dagnode | Skip | Process bool

definition precheck :: "dagnode list \<Rightarrow> error + precheck_result" where
  "precheck run =
     (if length run \<le> 1 then
        (case run of
           [] \<Rightarrow> Inl (IndexError Run0)
         | run0 # _ \<Rightarrow>
             if length (params (op run0)) > 0 \<and> array_equal (to_matrix (op run0)) identity_matrix
             then Inr (Remove run0)
             else if is_U3Gate (op run0) then
               (case params (op run0) of
                  [] \<Rightarrow> Inl (IndexError Params0)
                | p # _ \<Rightarrow> if isclose_0_or_half_pi p then Inr (Process True) else Inr Skip)
             else Inr Skip)
      else Inr (Process False))"

text \<open>Lines 94 to 96: \<^verbatim>\<open>Operator(run[0].op)\<close> composed with the gates of \<^verbatim>\<open>run[1:]\<close> in order.\<close>

definition run_operator :: "('g, 'd, 'm) env \<Rightarrow> dagnode list \<Rightarrow> error + 'm" where
  "run_operator e run =
     (case run of
        [] \<Rightarrow> Inl (IndexError Run0)
      | run0 # rest \<Rightarrow>
          Inr (foldl (\<lambda>operator gate. compose e operator (op gate)) (Operator e (op run0)) rest))"

text \<open>Lines 97 and 98: one candidate for each member of \<open>self.basis\<close>, in its order.\<close>

definition new_circs :: "('g, 'd, 'm) env \<Rightarrow> decomposer list \<Rightarrow> 'm \<Rightarrow> gate list list" where
  "new_circs e self_basis operator = map (\<lambda>decomposer. decompose e decomposer operator) self_basis"

text \<open>
  \<^verbatim>\<open>min(xs, key=len)\<close>: the running best is replaced only by a strictly shorter element,
  and the minimum of an empty list raises \<open>ValueError\<close>.
\<close>

fun min_from :: "'a list \<Rightarrow> 'a list list \<Rightarrow> 'a list" where
  "min_from best [] = best"
| "min_from best (x # xs) = (if length x < length best then min_from x xs else min_from best xs)"

fun min_key_len :: "'a list list \<Rightarrow> error + 'a list" where
  "min_key_len [] = Inl ValueError"
| "min_key_len (x # xs) = Inr (min_from x xs)"

text \<open>
  Lines 101 and 102: \<^verbatim>\<open>len(run) > len(new_circ) or (single_u3 and new_circ.data[0][0].name != 'u3')\<close>,
  with Python's evaluation order; the subscript raises on an empty circuit.
\<close>

definition accept :: "dagnode list \<Rightarrow> bool \<Rightarrow> gate list \<Rightarrow> error + bool" where
  "accept run single_u3 new_circ =
     (if length run > length new_circ then Inr True
      else if single_u3 then
        (case new_circ of
           [] \<Rightarrow> Inl (IndexError NewCircData0)
         | g # _ \<Rightarrow> Inr (name g \<noteq> ''u3''))
      else Inr False)"

text \<open>Lines 103 to 107: the first node is replaced by the circuit, the others are removed.\<close>

definition substitute_run :: "('g, 'd, 'm) env \<Rightarrow> 'g \<Rightarrow> dagnode list \<Rightarrow> gate list \<Rightarrow> error + 'g" where
  "substitute_run e dag run new_circ =
     (case run of
        [] \<Rightarrow> Inl (IndexError Run0)
      | run0 # rest \<Rightarrow>
          Inr (foldl (remove_op_node e)
                 (substitute_node_with_dag e dag run0 (circuit_to_dag e new_circ)) rest))"

text \<open>Lines 93 to 107.\<close>

definition optimize_run ::
    "('g, 'd, 'm) env \<Rightarrow> decomposer list \<Rightarrow> 'g \<Rightarrow> dagnode list \<Rightarrow> bool \<Rightarrow> error + 'g" where
  "optimize_run e self_basis dag run single_u3 =
     (case run_operator e run of
        Inl err \<Rightarrow> Inl err
      | Inr operator \<Rightarrow>
          if new_circs e self_basis operator \<noteq> [] then
            (case min_key_len (new_circs e self_basis operator) of
               Inl err \<Rightarrow> Inl err
             | Inr new_circ \<Rightarrow>
                 (case accept run single_u3 new_circ of
                    Inl err \<Rightarrow> Inl err
                  | Inr True \<Rightarrow> substitute_run e dag run new_circ
                  | Inr False \<Rightarrow> Inr dag))
          else Inr dag)"

text \<open>One iteration of \<^verbatim>\<open>for run in runs\<close> (lines 77 to 107), on the current graph.\<close>

definition run_body ::
    "('g, 'd, 'm) env \<Rightarrow> decomposer list \<Rightarrow> 'g \<Rightarrow> dagnode list \<Rightarrow> error + 'g" where
  "run_body e self_basis dag run =
     (case precheck run of
        Inl err \<Rightarrow> Inl err
      | Inr (Remove run0) \<Rightarrow> Inr (remove_op_node e dag run0)
      | Inr Skip \<Rightarrow> Inr dag
      | Inr (Process single_u3) \<Rightarrow> optimize_run e self_basis dag run single_u3)"

fun run_loop ::
    "('g, 'd, 'm) env \<Rightarrow> decomposer list \<Rightarrow> 'g \<Rightarrow> dagnode list list \<Rightarrow> error + 'g" where
  "run_loop e self_basis dag [] = Inr dag"
| "run_loop e self_basis dag (run # runs) =
     (case run_body e self_basis dag run of
        Inl err \<Rightarrow> Inl err
      | Inr dag' \<Rightarrow> run_loop e self_basis dag' runs)"

text \<open>
  \<^verbatim>\<open>run(self, dag)\<close>. \<^verbatim>\<open>not self.basis\<close> holds for \<open>None\<close> and for the empty list; the
  runs are collected once, before any of them is rewritten.
\<close>

definition run :: "('g, 'd, 'm) env \<Rightarrow> decomposer list option \<Rightarrow> 'g \<Rightarrow> error + 'g" where
  "run e self_basis dag =
     (case self_basis of
        None \<Rightarrow> Inr dag
      | Some bs \<Rightarrow> if bs = [] then Inr dag else run_loop e bs dag (collect_1q_runs e dag))"

subsection \<open>Predicates used in the statements\<close>

text \<open>The first gate of a circuit exists and is not named \<open>u3\<close>.\<close>

definition first_is_not_u3 :: "gate list \<Rightarrow> bool" where
  "first_is_not_u3 c = (case c of [] \<Rightarrow> False | g # _ \<Rightarrow> name g \<noteq> ''u3'')"


text \<open>The entries of the table whose gates all lie in the requested basis.\<close>

definition fitting :: "euler_basis_gates \<Rightarrow> string list option \<Rightarrow> euler_basis_gates" where
  "fitting tbl basis_arg =
     (case basis_arg of None \<Rightarrow> [] | Some b \<Rightarrow> filter (\<lambda>(n, g). set g \<subseteq> set b) tbl)"

section \<open>The collaborators modelled from the spec, and examples\<close>

text \<open>
  Tables of Euler bases for the examples: one with six bases whose gate-name sets all
  differ, and two in which the bases \<open>ZXZ\<close> and \<open>XZX\<close> have the same gate-name set.
\<close>

definition example_table :: euler_basis_gates where
  "example_table =
     [(''U3'', [''u3'']), (''U1X'', [''u1'', ''rx'']), (''RR'', [''r'']),
      (''ZYZ'', [''rz'', ''ry'']), (''ZXZ'', [''rz'', ''rx'']), (''XYX'', [''rx'', ''ry''])]"

definition tied_table :: euler_basis_gates where
  "tied_table = [(''ZXZ'', [''rz'', ''rx'']), (''XZX'', [''rx'', ''rz''])]"

definition tied_table_with_u3 :: euler_basis_gates where
  "tied_table_with_u3 =
     [(''ZXZ'', [''rz'', ''rx'']), (''U3'', [''u3'']), (''XZX'', [''rx'', ''rz''])]"

text \<open>
  Modelled from the spec: the operator type and \<^verbatim>\<open>compose\<close>, which this module imports.
  An operator is a matrix of complex numbers, and composing with one more gate
  multiplies by that gate's matrix from the left (section 4.2, step 2: start from the
  first operation's matrix and matrix-multiply in operation order).
\<close>

fun dot :: "complex list \<Rightarrow> complex list \<Rightarrow> complex" where
  "dot (a # u) (b # v) = a * b + dot u v"
| "dot _ _ = 0"

definition matmul :: "complex list list \<Rightarrow> complex list list \<Rightarrow> complex list list" where
  "matmul A B = map (\<lambda>row. map (dot row) (transpose B)) A"

text \<open>
  Modelled from the spec: the composed unitary effect of a circuit (section 3), the
  product of its gates' matrices in operation order, and equality up to a global phase
  within a tolerance (glossary: a complex scalar factor of modulus one is ignored).
\<close>

definition circuit_matrix :: "gate list \<Rightarrow> complex list list" where
  "circuit_matrix c = foldl (\<lambda>operator g. matmul (to_matrix g) operator) identity_matrix c"

definition equal_up_to_phase :: "real \<Rightarrow> complex list list \<Rightarrow> gate list \<Rightarrow> bool" where
  "equal_up_to_phase tol operator c \<longleftrightarrow>
     (\<exists>z. cmod z = 1 \<and>
        list_all2 (list_all2 (\<lambda>a b. cmod (a - z * b) \<le> tol)) operator (circuit_matrix c))"

text \<open>A matrix of a single-qubit gate: two rows of two entries.\<close>

definition one_qubit_matrix :: "complex list list \<Rightarrow> bool" where
  "one_qubit_matrix M \<longleftrightarrow> length M = 2 \<and> (\<forall>row \<in> set M. length row = 2)"

text \<open>
  Modelled from the spec: the graph, which this module receives. The smallest graph
  that fits section 6: one wire carrying single-qubit gates only, as the list of its
  nodes in order. Its only run is the whole wire; substituting a circuit for a node
  puts new nodes in its place, with identifiers not in use.
\<close>

definition wire_nodes :: "nat \<Rightarrow> gate list \<Rightarrow> dagnode list" where
  "wire_nodes k c = map (\<lambda>(i, g). \<lparr>node_id = k + i, op = g\<rparr>) (enumerate 0 c)"

definition fresh_id :: "dagnode list \<Rightarrow> nat" where
  "fresh_id dag = foldr (\<lambda>n k. max (Suc (node_id n)) k) dag 0"

definition wire_substitute :: "dagnode list \<Rightarrow> dagnode \<Rightarrow> gate list \<Rightarrow> dagnode list" where
  "wire_substitute dag n c =
     takeWhile (\<lambda>m. m \<noteq> n) dag @ wire_nodes (fresh_id dag) c @ drop 1 (dropWhile (\<lambda>m. m \<noteq> n) dag)"

definition wire_env :: "(decomposer \<Rightarrow> complex list list \<Rightarrow> gate list)
    \<Rightarrow> (dagnode list, gate list, complex list list) env" where
  "wire_env dec =
     \<lparr>collect_1q_runs = (\<lambda>dag. if dag = [] then [] else [dag]),
      remove_op_node = (\<lambda>dag n. remove1 n dag),
      substitute_node_with_dag = wire_substitute,
      circuit_to_dag = (\<lambda>c. c),
      Operator = to_matrix,
      compose = (\<lambda>operator g. matmul (to_matrix g) operator),
      decompose = dec\<rparr>"

text \<open>
  Modelled from the spec: a graph with several runs. Runs are maximal and do not
  overlap, and the pass touches nothing that lies between them (sections 3 and 6), so
  the graph is the list of the places where a run stands, each with the nodes of its
  run in order, possibly none. The runs are the non-empty places; removing a node takes
  it out of its place; substituting a circuit for a node puts new nodes, with
  identifiers not in use anywhere in the graph, where the node was.
\<close>

definition slot_substitute :: "dagnode list list \<Rightarrow> dagnode \<Rightarrow> gate list \<Rightarrow> dagnode list list" where
  "slot_substitute dag n c =
     map (\<lambda>s. if n \<in> set s
              then takeWhile (\<lambda>m. m \<noteq> n) s @ wire_nodes (fresh_id (concat dag)) c @
                   drop 1 (dropWhile (\<lambda>m. m \<noteq> n) s)
              else s) dag"

definition slot_env :: "(decomposer \<Rightarrow> complex list list \<Rightarrow> gate list)
    \<Rightarrow> (dagnode list list, gate list, complex list list) env" where
  "slot_env dec =
     \<lparr>collect_1q_runs = filter (\<lambda>s. s \<noteq> []),
      remove_op_node = (\<lambda>dag n. map (remove1 n) dag),
      substitute_node_with_dag = slot_substitute,
      circuit_to_dag = (\<lambda>c. c),
      Operator = to_matrix,
      compose = (\<lambda>operator g. matmul (to_matrix g) operator),
      decompose = dec\<rparr>"

text \<open>A run of a single gate that has parameters and the identity matrix, entry for entry.\<close>

definition lone_identity_gate :: "dagnode list \<Rightarrow> bool" where
  "lone_identity_gate r =
     (case r of
        [n] \<Rightarrow> params (op n) \<noteq> [] \<and> to_matrix (op n) = identity_matrix
      | _ \<Rightarrow> False)"


text \<open>
  For a run that the loop body substitutes, the decomposers answer alike on the run's
  operator and on the operator of the candidate chosen for the run: each member of
  \<open>self.basis\<close> returns the same circuit for both.
\<close>

definition candidate_stable :: "('g, 'd, 'm) env \<Rightarrow> decomposer list \<Rightarrow> dagnode list \<Rightarrow> bool" where
  "candidate_stable e self_basis r =
     (case precheck r of
        Inr (Process single_u3) \<Rightarrow>
          (case run_operator e r of
             Inl err \<Rightarrow> True
           | Inr operator \<Rightarrow>
               (case min_key_len (new_circs e self_basis operator) of
                  Inl err \<Rightarrow> True
                | Inr new_circ \<Rightarrow>
                    (case accept r single_u3 new_circ of
                       Inr True \<Rightarrow>
                         (case run_operator e (wire_nodes 0 new_circ) of
                            Inl err \<Rightarrow> True
                          | Inr operator' \<Rightarrow>
                              (\<forall>d \<in> set self_basis.
                                 decompose e d operator' = decompose e d operator))
                     | _ \<Rightarrow> True)))
      | _ \<Rightarrow> True)"


text \<open>
  Gate objects of the standard library, as the pass sees them: the Pauli X gate, the
  gates \<^verbatim>\<open>U3Gate(0, 0, 0)\<close> (the identity matrix) and \<^verbatim>\<open>U3Gate(0, 0, pi)\<close> (the Pauli Z
  matrix), \<^verbatim>\<open>U3Gate(pi, 0, pi)\<close> (the Pauli X matrix), and \<^verbatim>\<open>RZGate(pi)\<close>, \<^verbatim>\<open>U1Gate(pi)\<close>,
  \<^verbatim>\<open>RYGate(pi)\<close> and \<^verbatim>\<open>RXGate(pi)\<close>, \<^verbatim>\<open>RZGate(2*pi)\<close>, the phase gate S, and
  \<^verbatim>\<open>U3Gate(pi, pi/2, pi)\<close>, whose matrix is that of X followed by S.
\<close>

definition XGate :: gate where
  "XGate = \<lparr>name = ''x'', params = [], to_matrix = [[0, 1], [1, 0]], is_U3Gate = False\<rparr>"

definition U3Gate_0_0_0 :: gate where
  "U3Gate_0_0_0 =
     \<lparr>name = ''u3'', params = [0, 0, 0], to_matrix = [[1, 0], [0, 1]], is_U3Gate = True\<rparr>"

definition U3Gate_0_0_pi :: gate where
  "U3Gate_0_0_pi =
     \<lparr>name = ''u3'', params = [0, 0, pi], to_matrix = [[1, 0], [0, - 1]], is_U3Gate = True\<rparr>"

definition U3Gate_pi_0_pi :: gate where
  "U3Gate_pi_0_pi =
     \<lparr>name = ''u3'', params = [pi, 0, pi], to_matrix = [[0, 1], [1, 0]], is_U3Gate = True\<rparr>"

definition RZGate_pi :: gate where
  "RZGate_pi =
     \<lparr>name = ''rz'', params = [pi], to_matrix = [[- \<i>, 0], [0, \<i>]], is_U3Gate = False\<rparr>"

definition U1Gate_pi :: gate where
  "U1Gate_pi =
     \<lparr>name = ''u1'', params = [pi], to_matrix = [[1, 0], [0, - 1]], is_U3Gate = False\<rparr>"

definition RYGate_pi :: gate where
  "RYGate_pi =
     \<lparr>name = ''ry'', params = [pi], to_matrix = [[0, - 1], [1, 0]], is_U3Gate = False\<rparr>"

definition RXGate_pi :: gate where
  "RXGate_pi =
     \<lparr>name = ''rx'', params = [pi], to_matrix = [[0, - \<i>], [- \<i>, 0]], is_U3Gate = False\<rparr>"

definition RZGate_2pi :: gate where
  "RZGate_2pi =
     \<lparr>name = ''rz'', params = [2 * pi], to_matrix = [[- 1, 0], [0, - 1]], is_U3Gate = False\<rparr>"

definition SGate :: gate where
  "SGate = \<lparr>name = ''s'', params = [], to_matrix = [[1, 0], [0, \<i>]], is_U3Gate = False\<rparr>"

definition U3Gate_pi_halfpi_pi :: gate where
  "U3Gate_pi_halfpi_pi =
     \<lparr>name = ''u3'', params = [pi, pi / 2, pi], to_matrix = [[0, 1], [\<i>, 0]], is_U3Gate = True\<rparr>"

text \<open>
  Decomposers for the examples. Each returns a fixed circuit per basis: the first a
  circuit for the identity matrix, the second circuits for the Pauli Z matrix up to a
  global phase, the third a circuit for X followed by S. An example that uses one
  states what it needs of it.
\<close>

definition always_u3_identity :: "decomposer \<Rightarrow> complex list list \<Rightarrow> gate list" where
  "always_u3_identity d operator = [U3Gate_0_0_0]"

definition z_decomposers :: "decomposer \<Rightarrow> complex list list \<Rightarrow> gate list" where
  "z_decomposers d operator =
     (if basis d = ''U3'' then [U3Gate_0_0_pi]
      else if basis d = ''U1X'' then [U1Gate_pi]
      else if basis d = ''XYX'' then [RYGate_pi, RXGate_pi]
      else [RZGate_pi])"

definition sx_decomposers :: "decomposer \<Rightarrow> complex list list \<Rightarrow> gate list" where
  "sx_decomposers d operator = [U3Gate_pi_halfpi_pi]"

text \<open>
  A decomposer that tells apart two operators equal up to a global phase: for the
  matrix \<open>diag(-1, 1)\<close> it returns two rotations about Z, for any other matrix one.
\<close>

definition phase_sensitive_decomposers :: "decomposer \<Rightarrow> complex list list \<Rightarrow> gate list" where
  "phase_sensitive_decomposers d operator =
     (if operator = [[- 1, 0], [0, 1]] then [RZGate_pi, RZGate_2pi] else [RZGate_pi])"


section \<open>The basis selector: proofs\<close>

lemma getitem_known:
  "basis d \<in> fst ` set tbl \<Longrightarrow> \<exists>g. getitem tbl (basis d) = Inr g \<and> set g = gate_set tbl d"
proof -
  assume "basis d \<in> fst ` set tbl"
  then obtain g where "map_of tbl (basis d) = Some g"
    by (metis domD dom_map_of_conv_image_fst)
  then show ?thesis by (simp add: getitem_def gate_set_def)
qed

lemma gate_set_entry:
  "distinct (map fst tbl) \<Longrightarrow> (n, g) \<in> set tbl \<Longrightarrow> gate_set tbl (OneQubitEulerDecomposer n) = set g"
  by (simp add: gate_set_def)

lemma getitem_Inr: "getitem tbl (basis d) = Inr g \<Longrightarrow> set g = gate_set tbl d"
  by (auto simp: getitem_def gate_set_def split: option.splits)

lemma prune_total:
  assumes "set rest \<subseteq> set cur" "distinct rest" "distinct cur"
    and "\<forall>d \<in> set rest. basis d \<in> fst ` set tbl"
  shows "\<exists>fin cur'. prune tbl gates rest cur = Inr (fin, cur') \<and> distinct cur' \<and>
           set cur' \<subseteq> set cur \<and>
           (fin \<longrightarrow> set cur' = set cur - {d \<in> set rest. gate_set tbl d \<subseteq> set gates} \<and>
                  (\<forall>d \<in> set rest. \<not> gate_set tbl d \<subseteq> set gates \<longrightarrow> \<not> set gates \<subseteq> gate_set tbl d)) \<and>
           (\<not> fin \<longrightarrow> (\<exists>d \<in> set rest. \<not> gate_set tbl d \<subseteq> set gates \<and> set gates \<subseteq> gate_set tbl d))"
  using assms
proof (induction rest arbitrary: cur)
  case Nil
  then show ?case by auto
next
  case (Cons base rest)
  from Cons.prems obtain g where g: "getitem tbl (basis base) = Inr g" "set g = gate_set tbl base"
    using getitem_known by (metis list.set_intros(1))
  show ?case
  proof (cases "set g \<subseteq> set gates")
    case True
    have mem: "base \<in> set cur" using Cons.prems by simp
    let ?c = "remove1 base cur"
    have 1: "set rest \<subseteq> set ?c" using Cons.prems by auto
    have 2: "distinct rest" "distinct ?c" using Cons.prems by auto
    have 3: "\<forall>d \<in> set rest. basis d \<in> fst ` set tbl" using Cons.prems by simp
    from Cons.IH[OF 1 2 3] obtain fin cur' where
      r: "prune tbl gates rest ?c = Inr (fin, cur')" "distinct cur'" "set cur' \<subseteq> set ?c"
         "fin \<longrightarrow> set cur' = set ?c - {d \<in> set rest. gate_set tbl d \<subseteq> set gates} \<and>
                  (\<forall>d \<in> set rest. \<not> gate_set tbl d \<subseteq> set gates \<longrightarrow> \<not> set gates \<subseteq> gate_set tbl d)"
         "\<not> fin \<longrightarrow> (\<exists>d \<in> set rest. \<not> gate_set tbl d \<subseteq> set gates \<and> set gates \<subseteq> gate_set tbl d)"
      by blast
    have e: "prune tbl gates (base # rest) cur = Inr (fin, cur')"
      using g True mem r(1) by (simp add: list_remove_def)
    have s: "set ?c = set cur - {base}" using Cons.prems by simp
    show ?thesis
      using e r(2-5) s g(2) True by auto
  next
    case False
    show ?thesis
    proof (cases "set gates \<subseteq> set g")
      case True
      have "prune tbl gates (base # rest) cur = Inr (False, cur)"
        using g False True by simp
      then show ?thesis using Cons.prems(3) g(2) False True by auto
    next
      case nsub: False
      have 1: "set rest \<subseteq> set cur" using Cons.prems by auto
      have 2: "distinct rest" using Cons.prems by auto
      have 3: "\<forall>d \<in> set rest. basis d \<in> fst ` set tbl" using Cons.prems by simp
      from Cons.IH[OF 1 2 Cons.prems(3) 3] obtain fin cur' where
        r: "prune tbl gates rest cur = Inr (fin, cur')" "distinct cur'" "set cur' \<subseteq> set cur"
           "fin \<longrightarrow> set cur' = set cur - {d \<in> set rest. gate_set tbl d \<subseteq> set gates} \<and>
                  (\<forall>d \<in> set rest. \<not> gate_set tbl d \<subseteq> set gates \<longrightarrow> \<not> set gates \<subseteq> gate_set tbl d)"
           "\<not> fin \<longrightarrow> (\<exists>d \<in> set rest. \<not> gate_set tbl d \<subseteq> set gates \<and> set gates \<subseteq> gate_set tbl d)"
        by blast
      have e: "prune tbl gates (base # rest) cur = Inr (fin, cur')"
        using g False nsub r(1) by simp
      show ?thesis
        using e r(2-5) g(2) False nsub by auto
    qed
  qed
qed

lemma prune_keeps:
  assumes "prune tbl gates rest cur = Inr (fin, cur')"
    and "d \<in> set cur" and "\<not> gate_set tbl d \<subseteq> set gates"
  shows "d \<in> set cur'"
  using assms
proof (induction rest arbitrary: cur)
  case Nil
  then show ?case by simp
next
  case (Cons base rest)
  show ?case
  proof (cases "getitem tbl (basis base)")
    case (Inl err)
    then show ?thesis using Cons.prems(1) by simp
  next
    case (Inr g)
    have g: "set g = gate_set tbl base" using Inr by (rule getitem_Inr)
    show ?thesis
    proof (cases "set g \<subseteq> set gates")
      case True
      then have nb: "d \<noteq> base" using Cons.prems(3) g by auto
      show ?thesis
      proof (cases "base \<in> set cur")
        case False
        then show ?thesis using Cons.prems(1) Inr True by (simp add: list_remove_def)
      next
        case mem: True
        have p: "prune tbl gates rest (remove1 base cur) = Inr (fin, cur')"
          using Cons.prems(1) Inr True mem by (simp add: list_remove_def)
        have "d \<in> set (remove1 base cur)" using nb Cons.prems(2) by simp
        then show ?thesis using Cons.IH[OF p] Cons.prems(3) by blast
      qed
    next
      case False
      show ?thesis
      proof (cases "set gates \<subseteq> set g")
        case True
        then show ?thesis using Cons.prems(1,2) Inr False by simp
      next
        case nsub: False
        have p: "prune tbl gates rest cur = Inr (fin, cur')"
          using Cons.prems(1) Inr False nsub by simp
        show ?thesis using Cons.IH[OF p Cons.prems(2,3)] .
      qed
    qed
  qed
qed

lemma prune_break:
  assumes "prune tbl gates rest cur = Inr (False, cur')"
  shows "\<exists>d \<in> set rest. \<not> gate_set tbl d \<subseteq> set gates \<and> set gates \<subseteq> gate_set tbl d"
  using assms
proof (induction rest arbitrary: cur)
  case Nil
  then show ?case by simp
next
  case (Cons base rest)
  show ?case
  proof (cases "getitem tbl (basis base)")
    case (Inl err)
    then show ?thesis using Cons.prems(1) by simp
  next
    case (Inr g)
    have g: "set g = gate_set tbl base" using Inr by (rule getitem_Inr)
    show ?thesis
    proof (cases "set g \<subseteq> set gates")
      case True
      show ?thesis
      proof (cases "base \<in> set cur")
        case False
        then show ?thesis using Cons.prems(1) Inr True by (simp add: list_remove_def)
      next
        case mem: True
        have p: "prune tbl gates rest (remove1 base cur) = Inr (False, cur')"
          using Cons.prems(1) Inr True mem by (simp add: list_remove_def)
        show ?thesis using Cons.IH[OF p] by auto
      qed
    next
      case False
      show ?thesis
      proof (cases "set gates \<subseteq> set g")
        case True
        then show ?thesis using False g by auto
      next
        case nsub: False
        have p: "prune tbl gates rest cur = Inr (False, cur')"
          using Cons.prems(1) Inr False nsub by simp
        show ?thesis using Cons.IH[OF p] by auto
      qed
    qed
  qed
qed

lemma select_step:
  assumes inv: "selectable tbl b cur" and dk: "distinct (map fst tbl)"
    and ent: "(n, g) \<in> set tbl" and fresh: "OneQubitEulerDecomposer n \<notin> set cur"
    and q: "set g \<subseteq> set b"
  shows "\<exists>fin cur'. prune tbl g cur cur = Inr (fin, cur') \<and>
           selectable tbl b (if fin then cur' @ [OneQubitEulerDecomposer n] else cur') \<and>
           set cur' \<subseteq> set cur \<and>
           (\<forall>d \<in> set cur'. \<not> gate_set tbl d \<subseteq> set g)"
proof -
  have d: "distinct cur" and k: "\<forall>d \<in> set cur. basis d \<in> fst ` set tbl"
    and qs: "\<forall>d \<in> set cur. gate_set tbl d \<subseteq> set b"
    and ac: "\<forall>x \<in> set cur. \<forall>y \<in> set cur. x \<noteq> y \<longrightarrow> \<not> gate_set tbl x \<subseteq> gate_set tbl y"
    using inv by (auto simp: selectable_def)
  from prune_total[OF subset_refl d d k, of g] obtain fin cur' where
    r: "prune tbl g cur cur = Inr (fin, cur')" "distinct cur'" "set cur' \<subseteq> set cur"
       "fin \<longrightarrow> set cur' = set cur - {d \<in> set cur. gate_set tbl d \<subseteq> set g} \<and>
              (\<forall>d \<in> set cur. \<not> gate_set tbl d \<subseteq> set g \<longrightarrow> \<not> set g \<subseteq> gate_set tbl d)"
       "\<not> fin \<longrightarrow> (\<exists>d \<in> set cur. \<not> gate_set tbl d \<subseteq> set g \<and> set g \<subseteq> gate_set tbl d)"
    by blast
  let ?new = "OneQubitEulerDecomposer n"
  have gn: "gate_set tbl ?new = set g" using gate_set_entry[OF dk ent] .
  have sub: "selectable tbl b cur'"
    using r(2,3) k qs ac unfolding selectable_def by blast
  have nosub: "\<forall>d \<in> set cur'. \<not> gate_set tbl d \<subseteq> set g"
  proof (cases fin)
    case True
    then show ?thesis using r(4) by blast
  next
    case False
    then obtain e where e: "e \<in> set cur" "\<not> gate_set tbl e \<subseteq> set g" "set g \<subseteq> gate_set tbl e"
      using r(5) by blast
    show ?thesis
    proof
      fix x assume x: "x \<in> set cur'"
      show "\<not> gate_set tbl x \<subseteq> set g"
      proof
        assume xs: "gate_set tbl x \<subseteq> set g"
        then have "gate_set tbl x \<subseteq> gate_set tbl e" using e(3) by blast
        moreover have "x \<noteq> e" using xs e(2) by blast
        moreover have "x \<in> set cur" using x r(3) by blast
        ultimately show False using ac e(1) by blast
      qed
    qed
  qed
  have "selectable tbl b (if fin then cur' @ [?new] else cur')"
  proof (cases fin)
    case False
    then show ?thesis using sub by simp
  next
    case True
    have nin: "?new \<notin> set cur'" using fresh r(3) by blast
    have kn: "basis ?new \<in> fst ` set tbl" using ent by force
    have inc: "\<forall>d \<in> set cur'. \<not> set g \<subseteq> gate_set tbl d"
      using True r(4) nosub by blast
    show ?thesis
      using True sub nin kn gn q nosub inc unfolding selectable_def by auto
  qed
  then show ?thesis using r(1,3) nosub by blast
qed

lemma select_total:
  assumes "selectable tbl b cur" "distinct (map fst tbl)" "set items \<subseteq> set tbl"
    and "distinct (map fst items)"
    and "\<forall>d \<in> set cur. basis d \<notin> fst ` set items"
  shows "\<exists>r. select tbl b items cur = Inr r \<and> selectable tbl b r \<and>
           set r \<subseteq> set cur \<union> OneQubitEulerDecomposer ` fst ` set items \<and>
           (\<forall>d \<in> set r. d \<in> set cur \<longrightarrow>
              (\<forall>(n, g) \<in> set items. set g \<subseteq> set b \<longrightarrow> \<not> gate_set tbl d \<subseteq> set g))"
  using assms
proof (induction items arbitrary: cur)
  case Nil
  then show ?case by simp
next
  case (Cons it items)
  obtain n g where it: "it = (n, g)" by (cases it)
  have ent: "(n, g) \<in> set tbl" using Cons.prems(3) it by simp
  have fresh: "OneQubitEulerDecomposer n \<notin> set cur"
    using Cons.prems(5) it by force
  have its: "set items \<subseteq> set tbl" "distinct (map fst items)" "n \<notin> fst ` set items"
    using Cons.prems(3,4) it by auto
  show ?case
  proof (cases "set g \<subseteq> set b")
    case False
    have 5: "\<forall>d \<in> set cur. basis d \<notin> fst ` set items" using Cons.prems(5) by auto
    from Cons.IH[OF Cons.prems(1,2) its(1,2) 5] obtain r where
      r: "select tbl b items cur = Inr r" "selectable tbl b r"
         "set r \<subseteq> set cur \<union> OneQubitEulerDecomposer ` fst ` set items"
         "\<forall>d \<in> set r. d \<in> set cur \<longrightarrow>
              (\<forall>(n, g) \<in> set items. set g \<subseteq> set b \<longrightarrow> \<not> gate_set tbl d \<subseteq> set g)"
      by blast
    have "select tbl b (it # items) cur = Inr r" using it False r(1) by simp
    then show ?thesis using r(2-4) it False by auto
  next
    case True
    from select_step[OF Cons.prems(1,2) ent fresh True] obtain fin cur' where
      s: "prune tbl g cur cur = Inr (fin, cur')"
         "selectable tbl b (if fin then cur' @ [OneQubitEulerDecomposer n] else cur')"
         "set cur' \<subseteq> set cur" "\<forall>d \<in> set cur'. \<not> gate_set tbl d \<subseteq> set g"
      by blast
    let ?c = "if fin then cur' @ [OneQubitEulerDecomposer n] else cur'"
    have 5: "\<forall>d \<in> set ?c. basis d \<notin> fst ` set items"
      using Cons.prems(5) s(3) its(3) by auto
    from Cons.IH[OF s(2) Cons.prems(2) its(1,2) 5] obtain r where
      r: "select tbl b items ?c = Inr r" "selectable tbl b r"
         "set r \<subseteq> set ?c \<union> OneQubitEulerDecomposer ` fst ` set items"
         "\<forall>d \<in> set r. d \<in> set ?c \<longrightarrow>
              (\<forall>(n, g) \<in> set items. set g \<subseteq> set b \<longrightarrow> \<not> gate_set tbl d \<subseteq> set g)"
      by blast
    have e: "select tbl b (it # items) cur = Inr r" using it True s(1) r(1) by simp
    have a: "set r \<subseteq> set cur \<union> OneQubitEulerDecomposer ` fst ` set (it # items)"
      using r(3) s(3) it by (auto split: if_splits)
    have b: "\<forall>d \<in> set r. d \<in> set cur \<longrightarrow>
              (\<forall>(n, g) \<in> set (it # items). set g \<subseteq> set b \<longrightarrow> \<not> gate_set tbl d \<subseteq> set g)"
    proof (rule ballI, rule impI)
      fix d assume d: "d \<in> set r" "d \<in> set cur"
      have "basis d \<notin> fst ` set (it # items)" using Cons.prems(5) d(2) by blast
      then have bn: "basis d \<noteq> n" "basis d \<notin> fst ` set items"
        using it by auto
      have dn: "d \<noteq> OneQubitEulerDecomposer n" "d \<notin> OneQubitEulerDecomposer ` fst ` set items"
        using bn by force+
      have dc2: "d \<in> set ?c" using r(3) d(1) dn(2) by blast
      then have dc: "d \<in> set cur'" using dn(1) by (auto split: if_splits)
      have "\<not> gate_set tbl d \<subseteq> set g" using s(4) dc by blast
      moreover have "\<forall>(n, g) \<in> set items. set g \<subseteq> set b \<longrightarrow> \<not> gate_set tbl d \<subseteq> set g"
        using r(4) d(1) dc2 by blast
      ultimately show "\<forall>(n, g) \<in> set (it # items). set g \<subseteq> set b \<longrightarrow> \<not> gate_set tbl d \<subseteq> set g"
        using it by simp
    qed
    show ?thesis using e r(2) a b by blast
  qed
qed

lemma select_survives:
  assumes "selectable tbl b cur" "distinct (map fst tbl)" "set items \<subseteq> set tbl"
    and "distinct (map fst items)"
    and "\<forall>d \<in> set cur. basis d \<notin> fst ` set items"
    and "select tbl b items cur = Inr r"
    and "d \<in> set cur"
    and "\<forall>(n, g) \<in> set items. set g \<subseteq> set b \<longrightarrow> \<not> gate_set tbl d \<subseteq> set g"
  shows "d \<in> set r"
  using assms
proof (induction items arbitrary: cur)
  case Nil
  then show ?case by simp
next
  case (Cons it items)
  obtain n g where it: "it = (n, g)" by (cases it)
  have ent: "(n, g) \<in> set tbl" using Cons.prems(3) it by simp
  have fresh: "OneQubitEulerDecomposer n \<notin> set cur"
    using Cons.prems(5) it by force
  have its: "set items \<subseteq> set tbl" "distinct (map fst items)" "n \<notin> fst ` set items"
    using Cons.prems(3,4) it by auto
  have later: "\<forall>(n, g) \<in> set items. set g \<subseteq> set b \<longrightarrow> \<not> gate_set tbl d \<subseteq> set g"
    using Cons.prems(8) by simp
  show ?case
  proof (cases "set g \<subseteq> set b")
    case False
    have 5: "\<forall>d \<in> set cur. basis d \<notin> fst ` set items" using Cons.prems(5) by auto
    have 6: "select tbl b items cur = Inr r" using Cons.prems(6) it False by simp
    show ?thesis using Cons.IH[OF Cons.prems(1,2) its(1,2) 5 6 Cons.prems(7) later] .
  next
    case True
    from select_step[OF Cons.prems(1,2) ent fresh True] obtain fin cur' where
      s: "prune tbl g cur cur = Inr (fin, cur')"
         "selectable tbl b (if fin then cur' @ [OneQubitEulerDecomposer n] else cur')"
         "set cur' \<subseteq> set cur"
      by blast
    let ?c = "if fin then cur' @ [OneQubitEulerDecomposer n] else cur'"
    have nd: "\<not> gate_set tbl d \<subseteq> set g" using Cons.prems(8) it True by simp
    have dc: "d \<in> set ?c" using prune_keeps[OF s(1) Cons.prems(7) nd] by simp
    have 5: "\<forall>d \<in> set ?c. basis d \<notin> fst ` set items"
      using Cons.prems(5) s(3) its(3) by auto
    have 6: "select tbl b items ?c = Inr r" using Cons.prems(6) it True s(1) by simp
    show ?thesis using Cons.IH[OF s(2) Cons.prems(2) its(1,2) 5 6 dc later] .
  qed
qed

lemma select_append:
  "select tbl b (xs @ ys) cur =
     (case select tbl b xs cur of Inl e \<Rightarrow> Inl e | Inr c \<Rightarrow> select tbl b ys c)"
proof (induction xs arbitrary: cur)
  case Nil
  then show ?case by simp
next
  case (Cons x xs)
  obtain n g where x: "x = (n, g)" by (cases x)
  show ?case
  proof (cases "set g \<subseteq> set b")
    case False
    then show ?thesis using x Cons.IH by simp
  next
    case True
    show ?thesis
    proof (cases "prune tbl g cur cur")
      case (Inl e)
      then show ?thesis using x True by simp
    next
      case (Inr p)
      obtain fin c where p: "p = (fin, c)" by (cases p)
      show ?thesis using x True Inr p Cons.IH by simp
    qed
  qed
qed

lemma select_none_fitting:
  "\<forall>(n, g) \<in> set items. \<not> set g \<subseteq> set b \<Longrightarrow> select tbl b items cur = Inr cur"
proof (induction items)
  case Nil
  show ?case by simp
next
  case (Cons it items)
  obtain n g where it: "it = (n, g)" by (cases it)
  have ng: "\<not> set g \<subseteq> set b" using Cons.prems it by simp
  have "select tbl b items cur = Inr cur" using Cons by simp
  then show ?case using it ng by simp
qed

lemma selectable_Nil: "selectable tbl b []"
  by (simp add: selectable_def)

lemma selectable_entry:
  assumes "selectable tbl b cur" "distinct (map fst tbl)" "d \<in> set cur"
  shows "\<exists>h. (basis d, h) \<in> set tbl \<and> gate_set tbl d = set h \<and> set h \<subseteq> set b"
proof -
  have k: "basis d \<in> fst ` set tbl" and q: "gate_set tbl d \<subseteq> set b"
    using assms(1,3) by (auto simp: selectable_def)
  from k obtain h where h: "(basis d, h) \<in> set tbl" by force
  have "gate_set tbl (OneQubitEulerDecomposer (basis d)) = set h"
    using gate_set_entry[OF assms(2) h] .
  then have "gate_set tbl d = set h" by simp
  then show ?thesis using h q by auto
qed

lemma selectable_no_subset_pair: "selectable tbl b bs \<Longrightarrow> no_subset_pair tbl bs"
  unfolding selectable_def no_subset_pair_def
  by (metis nth_eq_iff_index_eq nth_mem)

lemma init_total:
  assumes "distinct (map fst tbl)"
  shows "\<exists>r. init tbl basis_arg = Inr r \<and> (\<forall>bs. r = Some bs \<longrightarrow> (\<exists>b. basis_arg = Some b \<and> selectable tbl b bs))"
proof (cases basis_arg)
  case None
  then show ?thesis by (simp add: init_def)
next
  case (Some b)
  have "\<forall>d \<in> set ([]::decomposer list). basis d \<notin> fst ` set tbl" by simp
  from select_total[OF selectable_Nil assms subset_refl assms this, of b]
  obtain r where "select tbl b tbl [] = Inr r" "selectable tbl b r" by blast
  then show ?thesis using Some by (simp add: init_def)
qed

lemma select_tied:
  assumes dk: "distinct (map fst tbl)"
    and tbl: "tbl = pre @ (later, later_gates) # post"
    and ear: "(earlier, earlier_gates) \<in> set pre"
    and same: "set earlier_gates = set later_gates"
    and q: "set later_gates \<subseteq> set b"
  shows "\<exists>bs. select tbl b tbl [] = Inr bs \<and> OneQubitEulerDecomposer earlier \<notin> set bs \<and>
     ((\<forall>(m, h) \<in> set tbl. set h \<subseteq> set b \<longrightarrow> \<not> set later_gates \<subset> set h) \<and>
      (\<forall>(m, h) \<in> set post. set h \<noteq> set later_gates) \<longrightarrow>
      OneQubitEulerDecomposer later \<in> set bs)"
proof -
  let ?items = "(later, later_gates) # post"
  have dpre: "distinct (map fst pre)" and ditems: "distinct (map fst ?items)"
    and dpost: "distinct (map fst post)"
    and disj: "fst ` set pre \<inter> fst ` set ?items = {}"
    and lpost: "later \<notin> fst ` set post"
    using dk unfolding tbl by auto
  have spre: "set pre \<subseteq> set tbl" and sitems: "set ?items \<subseteq> set tbl"
    and spost: "set post \<subseteq> set tbl" and lent: "(later, later_gates) \<in> set tbl"
    unfolding tbl by auto
  have e0: "\<forall>d \<in> set ([]::decomposer list). basis d \<notin> fst ` set pre" by simp
  from select_total[OF selectable_Nil dk spre dpre e0, of b] obtain r1 where
    r1: "select tbl b pre [] = Inr r1" "selectable tbl b r1"
        "set r1 \<subseteq> set [] \<union> OneQubitEulerDecomposer ` fst ` set pre"
    by blast
  have r1pre: "\<forall>d \<in> set r1. basis d \<in> fst ` set pre"
  proof
    fix d assume "d \<in> set r1"
    then have "d \<in> OneQubitEulerDecomposer ` fst ` set pre" using r1(3) by auto
    then obtain n where "n \<in> fst ` set pre" "d = OneQubitEulerDecomposer n" by blast
    then show "basis d \<in> fst ` set pre" by simp
  qed
  have e1: "\<forall>d \<in> set r1. basis d \<notin> fst ` set ?items" using r1pre disj by blast
  from select_total[OF r1(2) dk sitems ditems e1] obtain r where
    r: "select tbl b ?items r1 = Inr r" "selectable tbl b r"
       "set r \<subseteq> set r1 \<union> OneQubitEulerDecomposer ` fst ` set ?items"
       "\<forall>d \<in> set r. d \<in> set r1 \<longrightarrow>
          (\<forall>(n, g) \<in> set ?items. set g \<subseteq> set b \<longrightarrow> \<not> gate_set tbl d \<subseteq> set g)"
    by blast
  have whole: "select tbl b tbl [] = Inr r"
    using select_append[of tbl b pre ?items "[]"] r1(1) r(1) tbl by simp
  have eent: "(earlier, earlier_gates) \<in> set tbl" using ear spre by blast
  have ge: "gate_set tbl (OneQubitEulerDecomposer earlier) = set later_gates"
    using gate_set_entry[OF dk eent] same by simp
  have gl: "gate_set tbl (OneQubitEulerDecomposer later) = set later_gates"
    using gate_set_entry[OF dk lent] .
  have part1: "OneQubitEulerDecomposer earlier \<notin> set r"
  proof
    assume m: "OneQubitEulerDecomposer earlier \<in> set r"
    have "earlier \<in> fst ` set pre" using ear by force
    then have "earlier \<notin> fst ` set ?items" using disj by blast
    then have "OneQubitEulerDecomposer earlier \<notin> OneQubitEulerDecomposer ` fst ` set ?items"
      by auto
    then have "OneQubitEulerDecomposer earlier \<in> set r1" using m r(3) by blast
    then have "\<not> gate_set tbl (OneQubitEulerDecomposer earlier) \<subseteq> set later_gates"
      using r(4) m q by auto
    then show False using ge by simp
  qed
  have part2: "OneQubitEulerDecomposer later \<in> set r"
    if big: "\<forall>(m, h) \<in> set tbl. set h \<subseteq> set b \<longrightarrow> \<not> set later_gates \<subset> set h"
      and last: "\<forall>(m, h) \<in> set post. set h \<noteq> set later_gates"
  proof -
    have fresh: "OneQubitEulerDecomposer later \<notin> set r1" using e1 by force
    from select_step[OF r1(2) dk lent fresh q] obtain fin cur' where
      s: "prune tbl later_gates r1 r1 = Inr (fin, cur')"
         "selectable tbl b (if fin then cur' @ [OneQubitEulerDecomposer later] else cur')"
         "set cur' \<subseteq> set r1"
      by blast
    have fin: fin
    proof (rule ccontr)
      assume "\<not> fin"
      then have "prune tbl later_gates r1 r1 = Inr (False, cur')" using s(1) by simp
      from prune_break[OF this] obtain d where
        d: "d \<in> set r1" "\<not> gate_set tbl d \<subseteq> set later_gates" "set later_gates \<subseteq> gate_set tbl d"
        by blast
      from selectable_entry[OF r1(2) dk d(1)] obtain h where
        h: "(basis d, h) \<in> set tbl" "gate_set tbl d = set h" "set h \<subseteq> set b" by blast
      have "set later_gates \<subset> set h" using d(2,3) h(2) by auto
      then show False using big h(1,3) by blast
    qed
    let ?c = "cur' @ [OneQubitEulerDecomposer later]"
    have sc: "selectable tbl b ?c" using s(2) fin by simp
    have 5: "\<forall>d \<in> set ?c. basis d \<notin> fst ` set post"
      using e1 s(3) lpost by auto
    have 6: "select tbl b post ?c = Inr r" using r(1) q s(1) fin by simp
    have 7: "OneQubitEulerDecomposer later \<in> set ?c" by simp
    have 8: "\<forall>(n, g) \<in> set post. set g \<subseteq> set b \<longrightarrow>
        \<not> gate_set tbl (OneQubitEulerDecomposer later) \<subseteq> set g"
    proof (rule ballI, rule prod.case_eq_if[THEN iffD2], rule impI)
      fix x assume x: "x \<in> set post" and xq: "set (snd x) \<subseteq> set b"
      have xt: "(fst x, snd x) \<in> set tbl" using x spost by auto
      have a: "\<not> set later_gates \<subset> set (snd x)" using big xt xq by blast
      have b: "set (snd x) \<noteq> set later_gates" using last x by (cases x) auto
      show "\<not> gate_set tbl (OneQubitEulerDecomposer later) \<subseteq> set (snd x)"
        using a b gl by auto
    qed
    show ?thesis using select_survives[OF sc dk spost dpost 5 6 7 8] .
  qed
  show ?thesis using whole part1 part2 by blast
qed

section \<open>The run optimizer: proofs\<close>

lemma precheck_Process_nonempty: "precheck r = Inr (Process s) \<Longrightarrow> r \<noteq> []"
  by (auto simp: precheck_def)

lemma precheck_Process_True: "precheck r = Inr (Process True) \<Longrightarrow> length r = 1"
  by (cases r) (auto simp: precheck_def split: if_splits list.splits)

lemma precheck_error:
  "precheck r = Inl err \<Longrightarrow> err = IndexError Run0 \<or> err = IndexError Params0"
  by (cases r) (auto simp: precheck_def split: if_splits list.splits)

lemma run_operator_total: "r \<noteq> [] \<Longrightarrow> \<exists>operator. run_operator e r = Inr operator"
  by (cases r) (auto simp: run_operator_def)

lemma substitute_run_total: "r \<noteq> [] \<Longrightarrow> \<exists>g. substitute_run e dag r c = Inr g"
  by (cases r) (auto simp: substitute_run_def)

lemma min_key_len_total: "cs \<noteq> [] \<Longrightarrow> \<exists>c. min_key_len cs = Inr c"
  by (cases cs) auto

lemma new_circs_Nil: "new_circs e bs operator = [] \<longleftrightarrow> bs = []"
  by (simp add: new_circs_def)

lemma accept_cases:
  "(single_u3 \<longrightarrow> length r = 1) \<Longrightarrow>
   accept r single_u3 c = Inr (length c < length r \<or> (single_u3 \<and> first_is_not_u3 c))"
  by (cases c) (auto simp: accept_def first_is_not_u3_def)

lemma min_from_split:
  "\<exists>pre post. b # xs = pre @ min_from b xs # post \<and>
     (\<forall>y \<in> set pre. length (min_from b xs) < length y) \<and>
     (\<forall>y \<in> set post. length (min_from b xs) \<le> length y)"
proof (induction xs arbitrary: b)
  case Nil
  have "[b] = [] @ min_from b [] # []" by simp
  then show ?case by fastforce
next
  case (Cons x xs)
  show ?case
  proof (cases "length x < length b")
    case True
    then have eq: "min_from b (x # xs) = min_from x xs" by simp
    from Cons.IH[of x] obtain pre post where
      s: "x # xs = pre @ min_from x xs # post"
         "\<forall>y \<in> set pre. length (min_from x xs) < length y"
         "\<forall>y \<in> set post. length (min_from x xs) \<le> length y"
      by blast
    have "x \<in> set (pre @ min_from x xs # post)" using s(1) by (metis list.set_intros(1))
    then have "length (min_from x xs) \<le> length x" using s(2,3) by auto
    then have lb: "length (min_from x xs) < length b" using True by simp
    have 1: "b # x # xs = (b # pre) @ min_from x xs # post" using s(1) by simp
    have 2: "\<forall>y \<in> set (b # pre). length (min_from x xs) < length y" using s(2) lb by simp
    show ?thesis unfolding eq using 1 2 s(3) by blast
  next
    case False
    then have eq: "min_from b (x # xs) = min_from b xs" by simp
    from Cons.IH[of b] obtain pre post where
      s: "b # xs = pre @ min_from b xs # post"
         "\<forall>y \<in> set pre. length (min_from b xs) < length y"
         "\<forall>y \<in> set post. length (min_from b xs) \<le> length y"
      by blast
    show ?thesis
    proof (cases pre)
      case Nil
      then have m: "min_from b xs = b" "xs = post" using s(1) by auto
      have 1: "b # x # xs = [] @ min_from b xs # (x # post)" using m by simp
      have 2: "\<forall>y \<in> set (x # post). length (min_from b xs) \<le> length y"
        using s(3) m False by simp
      have 3: "\<forall>y \<in> set ([] :: 'a list list). length (min_from b xs) < length y" by simp
      show ?thesis unfolding eq using 1 2 3 by blast
    next
      case (Cons p pre')
      then have p: "p = b" "xs = pre' @ min_from b xs # post" using s(1) by auto
      have lb: "length (min_from b xs) < length b" using s(2) Cons p by simp
      have 1: "b # x # xs = (b # x # pre') @ min_from b xs # post" using p(2) by simp
      have 2: "\<forall>y \<in> set (b # x # pre'). length (min_from b xs) < length y"
        using s(2) Cons lb False by auto
      show ?thesis unfolding eq using 1 2 s(3) by blast
    qed
  qed
qed

lemma min_key_len_split:
  assumes "cs \<noteq> []"
  shows "\<exists>pre c post. cs = pre @ c # post \<and> min_key_len cs = Inr c \<and>
     (\<forall>y \<in> set pre. length c < length y) \<and> (\<forall>y \<in> set post. length c \<le> length y)"
proof -
  obtain b xs where cs: "cs = b # xs" using assms by (cases cs) auto
  from min_from_split[of b xs] obtain pre post where
    s: "b # xs = pre @ min_from b xs # post"
       "\<forall>y \<in> set pre. length (min_from b xs) < length y"
       "\<forall>y \<in> set post. length (min_from b xs) \<le> length y"
    by blast
  have m: "min_key_len cs = Inr (min_from b xs)" by (simp add: cs)
  show ?thesis using s m unfolding cs by blast
qed

lemma min_key_len_mem:
  assumes "min_key_len cs = Inr c"
  shows "c \<in> set cs"
proof -
  have "cs \<noteq> []" using assms by (cases cs) auto
  from min_key_len_split[OF this] obtain pre c' post where
    s: "cs = pre @ c' # post" "min_key_len cs = Inr c'" by blast
  have "c' = c" using s(2) assms by simp
  then show ?thesis using s(1) by simp
qed

lemma optimize_run_eq:
  assumes "run_operator e r = Inr operator"
    and "min_key_len (new_circs e self_basis operator) = Inr new_circ"
    and "accept r single_u3 new_circ = Inr b"
  shows "optimize_run e self_basis dag r single_u3 =
           (if b then substitute_run e dag r new_circ else Inr dag)"
proof -
  have "new_circs e self_basis operator \<noteq> []"
    using assms(2) by (cases "new_circs e self_basis operator") simp_all
  then show ?thesis
    unfolding optimize_run_def by (simp add: assms)
qed

lemma run_body_Process:
  assumes "self_basis \<noteq> []" "precheck r = Inr (Process single_u3)"
  shows "\<exists>operator new_circ.
     run_operator e r = Inr operator \<and>
     min_key_len (new_circs e self_basis operator) = Inr new_circ \<and>
     accept r single_u3 new_circ =
       Inr (length new_circ < length r \<or> (single_u3 \<and> first_is_not_u3 new_circ)) \<and>
     run_body e self_basis dag r =
       (if length new_circ < length r \<or> (single_u3 \<and> first_is_not_u3 new_circ)
        then substitute_run e dag r new_circ else Inr dag)"
proof -
  have ne: "r \<noteq> []" using assms(2) by (rule precheck_Process_nonempty)
  have "\<exists>operator. run_operator e r = Inr operator"
    by (rule run_operator_total[OF ne])
  then obtain operator where oeq: "run_operator e r = Inr operator" ..
  have nc: "new_circs e self_basis operator \<noteq> []" using assms(1) by (simp add: new_circs_Nil)
  have "\<exists>new_circ. min_key_len (new_circs e self_basis operator) = Inr new_circ"
    by (rule min_key_len_total[OF nc])
  then obtain new_circ where meq: "min_key_len (new_circs e self_basis operator) = Inr new_circ" ..
  have l: "single_u3 \<longrightarrow> length r = 1"
    using assms(2) by (cases single_u3) (simp_all add: precheck_Process_True)
  have a: "accept r single_u3 new_circ =
      Inr (length new_circ < length r \<or> (single_u3 \<and> first_is_not_u3 new_circ))"
    using accept_cases[OF l] .
  have b: "run_body e self_basis dag r = optimize_run e self_basis dag r single_u3"
    by (simp add: run_body_def assms(2))
  have c: "run_body e self_basis dag r =
       (if length new_circ < length r \<or> (single_u3 \<and> first_is_not_u3 new_circ)
        then substitute_run e dag r new_circ else Inr dag)"
    unfolding b by (rule optimize_run_eq[OF oeq meq a])
  show ?thesis
    by (rule exI[of _ operator], rule exI[of _ new_circ]) (simp only: oeq meq a c simp_thms)
qed

lemma run_body_Process_total:
  assumes "precheck r = Inr (Process single_u3)"
  shows "\<exists>dag'. run_body e self_basis dag r = Inr dag'"
proof (cases "self_basis = []")
  case True
  have ne: "r \<noteq> []" using assms by (rule precheck_Process_nonempty)
  have "\<exists>operator. run_operator e r = Inr operator" by (rule run_operator_total[OF ne])
  then obtain operator where oeq: "run_operator e r = Inr operator" ..
  have "run_body e self_basis dag r = Inr dag"
    using assms oeq True by (simp add: run_body_def optimize_run_def new_circs_def)
  then show ?thesis by simp
next
  case False
  have ne: "r \<noteq> []" using assms by (rule precheck_Process_nonempty)
  have "\<exists>g. substitute_run e dag r c = Inr g" for c by (rule substitute_run_total[OF ne])
  then show ?thesis
    using run_body_Process[OF False assms, of e dag] by (metis (full_types))
qed

lemma run_body_no_NewCircData0:
  "run_body e self_basis dag r \<noteq> Inl (IndexError NewCircData0)"
proof (cases "precheck r")
  case (Inl err)
  then have "run_body e self_basis dag r = Inl err" by (simp add: run_body_def)
  then show ?thesis using precheck_error[OF Inl] by auto
next
  case (Inr v)
  show ?thesis
  proof (cases v)
    case (Remove n)
    then show ?thesis using Inr by (simp add: run_body_def)
  next
    case Skip
    then show ?thesis using Inr by (simp add: run_body_def)
  next
    case (Process s)
    then have "precheck r = Inr (Process s)" using Inr by simp
    from run_body_Process_total[OF this, of e self_basis dag] show ?thesis by auto
  qed
qed

lemma run_loop_no_NewCircData0:
  "run_loop e self_basis dag runs \<noteq> Inl (IndexError NewCircData0)"
proof (induction runs arbitrary: dag)
  case Nil
  show ?case by simp
next
  case (Cons r runs)
  show ?case
  proof (cases "run_body e self_basis dag r")
    case (Inl err)
    then show ?thesis using run_body_no_NewCircData0[of e self_basis dag r] by simp
  next
    case (Inr dag')
    then show ?thesis using Cons.IH[of dag'] by simp
  qed
qed



lemma transpose_identity_matrix: "transpose identity_matrix = identity_matrix"
  by (simp add: identity_matrix_def)

lemma matmul_identity_matrix:
  assumes "one_qubit_matrix A"
  shows "matmul A identity_matrix = A"
proof -
  have "map (dot row) identity_matrix = row" if "row \<in> set A" for row
  proof -
    have "length row = 2" using assms that by (simp add: one_qubit_matrix_def)
    then obtain a b where "row = [a, b]"
      by (metis (no_types, opaque_lifting) One_nat_def Suc_1 length_0_conv length_Suc_conv)
    then show ?thesis by (simp add: identity_matrix_def)
  qed
  then show ?thesis
    unfolding matmul_def transpose_identity_matrix by (simp add: map_idI)
qed

lemma run_operator_circuit_matrix:
  assumes "Operator e = to_matrix"
    and "compose e = (\<lambda>operator g. matmul (to_matrix g) operator)"
    and "r \<noteq> []"
    and "\<forall>n \<in> set r. one_qubit_matrix (to_matrix (op n))"
  shows "run_operator e r = Inr (circuit_matrix (map op r))"
proof -
  obtain n rest where r: "r = n # rest" using assms(3) by (cases r) auto
  have m: "matmul (to_matrix (op n)) identity_matrix = to_matrix (op n)"
    using assms(4) r by (simp add: matmul_identity_matrix)
  have "foldl (\<lambda>operator gate. matmul (to_matrix (op gate)) operator) M rest =
        foldl (\<lambda>operator g. matmul (to_matrix g) operator) M (map op rest)" for M
    by (simp add: foldl_map)
  then show ?thesis
    using m by (simp add: r run_operator_def circuit_matrix_def assms(1,2))
qed

lemma chosen_candidate_meets_relation:
  assumes "min_key_len (new_circs e self_basis operator) = Inr new_circ"
    and "\<forall>d \<in> set self_basis. R operator (decompose e d operator)"
  shows "R operator new_circ"
proof -
  have "new_circ \<in> set (new_circs e self_basis operator)"
    using assms(1) by (rule min_key_len_mem)
  then obtain d where d: "d \<in> set self_basis" "new_circ = decompose e d operator"
    by (auto simp: new_circs_def)
  show ?thesis using assms(2) d by simp
qed

section \<open>The graph with several runs: proofs\<close>



























section \<open>The examples, evaluated\<close>

lemma pi_not_close: "\<not> \<bar>pi\<bar> \<le> 1 / 10 ^ 12" "\<not> \<bar>pi - pi / 2\<bar> \<le> 1 / 10 ^ 12"
  using pi_ge_two by auto

lemma eval_precheck_xzx:
  "precheck (wire_nodes 0 [XGate, U3Gate_0_0_pi, XGate]) = Inr (Process False)"
  by (simp add: precheck_def wire_nodes_def enumerate_eq_zip)

lemma eval_precheck_z:
  "precheck (wire_nodes 0 [U3Gate_0_0_pi]) = Inr (Process True)"
  by (simp add: precheck_def wire_nodes_def enumerate_eq_zip U3Gate_0_0_pi_def array_equal_def
      identity_matrix_def isclose_0_or_half_pi_def isclose_def)

lemma eval_operator_xzx:
  "run_operator (wire_env dec) (wire_nodes 0 [XGate, U3Gate_0_0_pi, XGate]) = Inr [[- 1, 0], [0, 1]]"
  by (simp add: run_operator_def wire_env_def wire_nodes_def enumerate_eq_zip XGate_def
      U3Gate_0_0_pi_def matmul_def)

lemma eval_operator_z:
  "run_operator (wire_env dec) (wire_nodes 0 [U3Gate_0_0_pi]) = Inr [[1, 0], [0, - 1]]"
  by (simp add: run_operator_def wire_env_def wire_nodes_def enumerate_eq_zip U3Gate_0_0_pi_def)

lemma eval_run_body_xzx:
  "run_body (wire_env z_decomposers) [OneQubitEulerDecomposer ''U3'']
     (wire_nodes 0 [XGate, U3Gate_0_0_pi, XGate]) (wire_nodes 0 [XGate, U3Gate_0_0_pi, XGate]) =
   Inr (wire_nodes 3 [U3Gate_0_0_pi])"
  by (simp add: run_body_def precheck_def optimize_run_def run_operator_def new_circs_def
      accept_def substitute_run_def wire_env_def wire_nodes_def enumerate_eq_zip
      wire_substitute_def fresh_id_def z_decomposers_def XGate_def U3Gate_0_0_pi_def)

lemma eval_run_body_z_u1x:
  "run_body (wire_env z_decomposers) [OneQubitEulerDecomposer ''U1X'']
     (wire_nodes 0 [U3Gate_0_0_pi]) (wire_nodes 0 [U3Gate_0_0_pi]) =
   Inr (wire_nodes 1 [U1Gate_pi])"
  by (simp add: run_body_def precheck_def optimize_run_def run_operator_def new_circs_def
      accept_def substitute_run_def wire_env_def wire_nodes_def enumerate_eq_zip
      wire_substitute_def fresh_id_def z_decomposers_def U1Gate_pi_def U3Gate_0_0_pi_def
      array_equal_def identity_matrix_def isclose_0_or_half_pi_def isclose_def)

lemma eval_run_body_z_u3:
  "run_body (wire_env z_decomposers) [OneQubitEulerDecomposer ''U3'']
     (wire_nodes 0 [U3Gate_0_0_pi]) (wire_nodes 0 [U3Gate_0_0_pi]) =
   Inr (wire_nodes 0 [U3Gate_0_0_pi])"
  by (simp add: run_body_def precheck_def optimize_run_def run_operator_def new_circs_def
      accept_def substitute_run_def wire_env_def wire_nodes_def enumerate_eq_zip
      wire_substitute_def fresh_id_def z_decomposers_def U3Gate_0_0_pi_def
      array_equal_def identity_matrix_def isclose_0_or_half_pi_def isclose_def)

lemma eval_new_circs_xzx:
  "new_circs (wire_env z_decomposers)
     [OneQubitEulerDecomposer ''XYX'', OneQubitEulerDecomposer ''U1X'', OneQubitEulerDecomposer ''ZYZ'']
     [[- 1, 0], [0, 1]] =
   [[RYGate_pi, RXGate_pi], [U1Gate_pi], [RZGate_pi]]"
  by (simp add: new_circs_def wire_env_def z_decomposers_def)

lemma eval_run_body_xzx_three:
  "run_body (wire_env z_decomposers)
     [OneQubitEulerDecomposer ''XYX'', OneQubitEulerDecomposer ''U1X'', OneQubitEulerDecomposer ''ZYZ'']
     (wire_nodes 0 [XGate, U3Gate_0_0_pi, XGate]) (wire_nodes 0 [XGate, U3Gate_0_0_pi, XGate]) =
   Inr (wire_nodes 3 [U1Gate_pi])"
  by (simp add: run_body_def precheck_def optimize_run_def run_operator_def new_circs_def
      accept_def substitute_run_def wire_env_def wire_nodes_def enumerate_eq_zip
      wire_substitute_def fresh_id_def z_decomposers_def XGate_def U3Gate_0_0_pi_def)


lemma eval_init_tied_with_u3:
  "init tied_table_with_u3 (Some [''u3'', ''rz'', ''rx'', ''cx'']) =
     Inr (Some [OneQubitEulerDecomposer ''U3'', OneQubitEulerDecomposer ''XZX''])"
  by (simp add: init_def tied_table_with_u3_def getitem_def list_remove_def)

lemma eval_circuit_matrix_xs:
  "circuit_matrix (map op (wire_nodes 0 [XGate, SGate])) = [[0, 1], [\<i>, 0]]"
  "circuit_matrix [SGate, XGate] = [[0, \<i>], [1, 0]]"
  "circuit_matrix [U3Gate_pi_halfpi_pi] = [[0, 1], [\<i>, 0]]"
  by (simp_all add: circuit_matrix_def identity_matrix_def matmul_def wire_nodes_def
      enumerate_eq_zip XGate_def SGate_def U3Gate_pi_halfpi_pi_def)

lemma xs_equal_up_to_phase:
  "equal_up_to_phase (1 / 10 ^ 12) [[0, 1], [\<i>, 0]] [U3Gate_pi_halfpi_pi]"
  unfolding equal_up_to_phase_def eval_circuit_matrix_xs
  by (rule exI[of _ 1]) simp

lemma sx_not_equal_up_to_phase:
  "\<not> equal_up_to_phase (1 / 10 ^ 12) (circuit_matrix [SGate, XGate]) [U3Gate_pi_halfpi_pi]"
proof
  assume "equal_up_to_phase (1 / 10 ^ 12) (circuit_matrix [SGate, XGate]) [U3Gate_pi_halfpi_pi]"
  then obtain z where z: "cmod (\<i> - z) \<le> 1 / 10 ^ 12" "cmod (1 - z * \<i>) \<le> 1 / 10 ^ 12"
    unfolding equal_up_to_phase_def eval_circuit_matrix_xs by auto
  have e: "1 - z * \<i> = 2 + \<i> * (\<i> - z)" by (simp add: algebra_simps)
  have a: "cmod (2 + \<i> * (\<i> - z)) \<le> 1 / 10 ^ 12" using z(2) by (simp only: e)
  have b: "cmod (2::complex) - cmod (\<i> * (\<i> - z)) \<le> cmod (2 + \<i> * (\<i> - z))"
    by (rule norm_diff_ineq)
  have c: "cmod (\<i> * (\<i> - z)) = cmod (\<i> - z)" by (simp add: norm_mult)
  have d: "cmod (2::complex) = 2" by simp
  have "(2::real) - 1 / 10 ^ 12 \<le> 1 / 10 ^ 12" using a b c d z(1) by linarith
  then show False by simp
qed

lemmas slot_eval =
  run_def run_body_def precheck_def optimize_run_def run_operator_def new_circs_def
  accept_def substitute_run_def slot_env_def slot_substitute_def wire_nodes_def
  enumerate_eq_zip fresh_id_def matmul_def array_equal_def identity_matrix_def
  isclose_0_or_half_pi_def isclose_def




text \<open>
  The second proviso of claim C9 is needed: \<open>phase_sensitive_decomposers\<close> returns for
  each operator a circuit equal to it up to a global phase, the first pass replaces the
  run X, Z, X by two rotations, and the second pass replaces these by one.
\<close>

lemma eval_phase_sensitive_contract:
  "equal_up_to_phase 0 [[- 1, 0], [0, 1]] [RZGate_pi, RZGate_2pi]"
  "equal_up_to_phase 0 [[\<i>, 0], [0, - \<i>]] [RZGate_pi]"
proof -
  have c: "circuit_matrix [RZGate_pi, RZGate_2pi] = [[\<i>, 0], [0, - \<i>]]"
          "circuit_matrix [RZGate_pi] = [[- \<i>, 0], [0, \<i>]]"
    by (simp_all add: circuit_matrix_def identity_matrix_def matmul_def RZGate_pi_def
        RZGate_2pi_def)
  show "equal_up_to_phase 0 [[- 1, 0], [0, 1]] [RZGate_pi, RZGate_2pi]"
    unfolding equal_up_to_phase_def c by (rule exI[of _ "\<i>"]) simp
  show "equal_up_to_phase 0 [[\<i>, 0], [0, - \<i>]] [RZGate_pi]"
    unfolding equal_up_to_phase_def c by (rule exI[of _ "- 1"]) simp
qed

lemma unstable_decomposer_second_pass_shortens:
  "run (slot_env phase_sensitive_decomposers) (Some [OneQubitEulerDecomposer ''ZYZ''])
     [wire_nodes 0 [XGate, U3Gate_0_0_pi, XGate]] = Inr [wire_nodes 3 [RZGate_pi, RZGate_2pi]] \<and>
   run_operator (slot_env phase_sensitive_decomposers) (wire_nodes 0 [XGate, U3Gate_0_0_pi, XGate]) =
     Inr [[- 1, 0], [0, 1]] \<and>
   run_operator (slot_env phase_sensitive_decomposers) (wire_nodes 3 [RZGate_pi, RZGate_2pi]) =
     Inr [[\<i>, 0], [0, - \<i>]] \<and>
   run (slot_env phase_sensitive_decomposers) (Some [OneQubitEulerDecomposer ''ZYZ''])
     [wire_nodes 3 [RZGate_pi, RZGate_2pi]] = Inr [wire_nodes 5 [RZGate_pi]] \<and>
   \<not> lone_identity_gate (wire_nodes 3 [RZGate_pi, RZGate_2pi]) \<and>
   \<not> candidate_stable (slot_env phase_sensitive_decomposers) [OneQubitEulerDecomposer ''ZYZ'']
       (wire_nodes 0 [XGate, U3Gate_0_0_pi, XGate])"
  by (simp add: slot_eval candidate_stable_def lone_identity_gate_def complex_eq_iff
      phase_sensitive_decomposers_def XGate_def U3Gate_0_0_pi_def RZGate_pi_def RZGate_2pi_def)

section \<open>The claims\<close>

text \<open>
  Claim C1. Operators are matrices, \<open>Operator\<close> takes a gate's matrix and \<open>compose\<close>
  multiplies by the next gate's matrix from the left; the gates of the run have
  two-by-two matrices. The unitary effect of the run is the product of its gates'
  matrices in operation order, \<open>circuit_matrix (map op r)\<close>, and this is the operator the
  pass computes. If every member of \<open>self.basis\<close> returns for it a circuit whose own
  product is equal to it up to a global phase within \<open>tol\<close>, then so is the circuit that
  the loop body substitutes for the run when it accepts.
\<close>

theorem substituted_circuit_equal_up_to_phase:
  assumes "Operator e = to_matrix"
    and "compose e = (\<lambda>operator g. matmul (to_matrix g) operator)"
    and "precheck r = Inr (Process single_u3)"
    and "\<forall>n \<in> set r. one_qubit_matrix (to_matrix (op n))"
    and "min_key_len (new_circs e self_basis (circuit_matrix (map op r))) = Inr new_circ"
    and "accept r single_u3 new_circ = Inr True"
    and "\<forall>d \<in> set self_basis.
           equal_up_to_phase tol (circuit_matrix (map op r))
             (decompose e d (circuit_matrix (map op r)))"
  shows "run_operator e r = Inr (circuit_matrix (map op r)) \<and>
         run_body e self_basis dag r = substitute_run e dag r new_circ \<and>
         equal_up_to_phase tol (circuit_matrix (map op r)) new_circ"
proof -
  have ne: "r \<noteq> []" using assms(3) by (rule precheck_Process_nonempty)
  have ro: "run_operator e r = Inr (circuit_matrix (map op r))"
    using run_operator_circuit_matrix[OF assms(1,2) ne assms(4)] .
  have 1: "equal_up_to_phase tol (circuit_matrix (map op r)) new_circ"
    using chosen_candidate_meets_relation[where R = "equal_up_to_phase tol", OF assms(5,7)] .
  have "run_body e self_basis dag r = optimize_run e self_basis dag r single_u3"
    by (simp add: run_body_def assms(3))
  also have "\<dots> = substitute_run e dag r new_circ"
    using optimize_run_eq[OF ro assms(5,6), of dag] by simp
  finally show ?thesis using ro 1 by simp
qed

theorem substituted_circuit_equal_up_to_phase_witness:
  "Operator (wire_env sx_decomposers) = to_matrix \<and>
   compose (wire_env sx_decomposers) = (\<lambda>operator g. matmul (to_matrix g) operator) \<and>
   precheck (wire_nodes 0 [XGate, SGate]) = Inr (Process False) \<and>
   one_qubit_matrix (to_matrix XGate) \<and> one_qubit_matrix (to_matrix SGate) \<and>
   circuit_matrix (map op (wire_nodes 0 [XGate, SGate])) = [[0, 1], [\<i>, 0]] \<and>
   min_key_len (new_circs (wire_env sx_decomposers) [OneQubitEulerDecomposer ''U3'']
       [[0, 1], [\<i>, 0]]) = Inr [U3Gate_pi_halfpi_pi] \<and>
   accept (wire_nodes 0 [XGate, SGate]) False [U3Gate_pi_halfpi_pi] = Inr True \<and>
   equal_up_to_phase (1 / 10 ^ 12) [[0, 1], [\<i>, 0]]
     (decompose (wire_env sx_decomposers) (OneQubitEulerDecomposer ''U3'') [[0, 1], [\<i>, 0]]) \<and>
   run_operator (wire_env sx_decomposers) (wire_nodes 0 [XGate, SGate]) = Inr [[0, 1], [\<i>, 0]] \<and>
   run_body (wire_env sx_decomposers) [OneQubitEulerDecomposer ''U3'']
     (wire_nodes 0 [XGate, SGate]) (wire_nodes 0 [XGate, SGate]) =
     Inr (wire_nodes 2 [U3Gate_pi_halfpi_pi]) \<and>
   equal_up_to_phase (1 / 10 ^ 12) [[0, 1], [\<i>, 0]] [U3Gate_pi_halfpi_pi] \<and>
   \<not> equal_up_to_phase (1 / 10 ^ 12) (circuit_matrix [SGate, XGate]) [U3Gate_pi_halfpi_pi]"
proof -
  let ?e = "wire_env sx_decomposers"
  let ?r = "wire_nodes 0 [XGate, SGate]"
  let ?b = "[OneQubitEulerDecomposer ''U3'']"
  let ?M = "[[0, 1], [\<i>, 0]] :: complex list list"
  have h1: "Operator ?e = to_matrix" by (simp add: wire_env_def)
  have h2: "compose ?e = (\<lambda>operator g. matmul (to_matrix g) operator)" by (simp add: wire_env_def)
  have h3: "precheck ?r = Inr (Process False)"
    by (simp add: precheck_def wire_nodes_def enumerate_eq_zip)
  have q: "one_qubit_matrix (to_matrix XGate)" "one_qubit_matrix (to_matrix SGate)"
    by (simp_all add: one_qubit_matrix_def XGate_def SGate_def)
  have h4: "\<forall>n \<in> set ?r. one_qubit_matrix (to_matrix (op n))"
    using q by (simp add: wire_nodes_def enumerate_eq_zip)
  have cm: "circuit_matrix (map op ?r) = ?M" by (rule eval_circuit_matrix_xs(1))
  have d: "decompose ?e (OneQubitEulerDecomposer ''U3'') ?M = [U3Gate_pi_halfpi_pi]"
    by (simp add: wire_env_def sx_decomposers_def)
  have m: "min_key_len (new_circs ?e ?b ?M) = Inr [U3Gate_pi_halfpi_pi]"
    by (simp add: new_circs_def d)
  have h5: "min_key_len (new_circs ?e ?b (circuit_matrix (map op ?r))) = Inr [U3Gate_pi_halfpi_pi]"
    using m cm by simp
  have h6: "accept ?r False [U3Gate_pi_halfpi_pi] = Inr True"
    by (simp add: accept_def wire_nodes_def)
  have h7: "\<forall>d \<in> set ?b. equal_up_to_phase (1 / 10 ^ 12) (circuit_matrix (map op ?r))
      (decompose ?e d (circuit_matrix (map op ?r)))"
    using xs_equal_up_to_phase d cm by simp
  have s: "substitute_run ?e ?r ?r [U3Gate_pi_halfpi_pi] = Inr (wire_nodes 2 [U3Gate_pi_halfpi_pi])"
    by (simp add: substitute_run_def wire_env_def wire_nodes_def enumerate_eq_zip
        wire_substitute_def fresh_id_def)
  note t = substituted_circuit_equal_up_to_phase[where dag = ?r, OF h1 h2 h3 h4 h5 h6 h7]
  show ?thesis
    using t h1 h2 h3 q cm m h6 d s xs_equal_up_to_phase sx_not_equal_up_to_phase
    by simp
qed

text \<open>
  Claim C2. A run that reaches line 93 with a non-empty \<open>self.basis\<close> has a chosen
  candidate, and the loop body substitutes it (the first node is replaced by the
  candidate and the other nodes of the run are removed) exactly when the candidate is
  strictly shorter than the run, or \<open>single_u3\<close> is set and the candidate's first gate
  is not named \<open>u3\<close>; otherwise the graph is returned as it was.
\<close>

theorem substituted_iff_accepted:
  assumes "self_basis \<noteq> []" and "precheck r = Inr (Process single_u3)"
  shows "\<exists>operator new_circ dag'.
     run_operator e r = Inr operator \<and>
     min_key_len (new_circs e self_basis operator) = Inr new_circ \<and>
     substitute_run e dag r new_circ = Inr dag' \<and>
     run_body e self_basis dag r =
       (if length new_circ < length r \<or> (single_u3 \<and> first_is_not_u3 new_circ)
        then Inr dag' else Inr dag)"
proof -
  from run_body_Process[OF assms, of e dag] obtain operator new_circ where
    p: "run_operator e r = Inr operator"
       "min_key_len (new_circs e self_basis operator) = Inr new_circ"
       "run_body e self_basis dag r =
         (if length new_circ < length r \<or> (single_u3 \<and> first_is_not_u3 new_circ)
          then substitute_run e dag r new_circ else Inr dag)"
    by blast
  have ne: "r \<noteq> []" using assms(2) by (rule precheck_Process_nonempty)
  have "\<exists>dag'. substitute_run e dag r new_circ = Inr dag'" by (rule substitute_run_total[OF ne])
  then obtain dag' where s: "substitute_run e dag r new_circ = Inr dag'" ..
  show ?thesis
    by (rule exI[of _ operator], rule exI[of _ new_circ], rule exI[of _ dag'])
       (simp only: p s simp_thms)
qed

theorem substituted_iff_accepted_witness:
  "[OneQubitEulerDecomposer ''U3''] \<noteq> [] \<and>
   precheck (wire_nodes 0 [XGate, U3Gate_0_0_pi, XGate]) = Inr (Process False) \<and>
   run_body (wire_env z_decomposers) [OneQubitEulerDecomposer ''U3'']
     (wire_nodes 0 [XGate, U3Gate_0_0_pi, XGate]) (wire_nodes 0 [XGate, U3Gate_0_0_pi, XGate]) =
     Inr (wire_nodes 3 [U3Gate_0_0_pi]) \<and>
   precheck (wire_nodes 0 [U3Gate_0_0_pi]) = Inr (Process True) \<and>
   run_body (wire_env z_decomposers) [OneQubitEulerDecomposer ''U1X'']
     (wire_nodes 0 [U3Gate_0_0_pi]) (wire_nodes 0 [U3Gate_0_0_pi]) =
     Inr (wire_nodes 1 [U1Gate_pi]) \<and>
   run_body (wire_env z_decomposers) [OneQubitEulerDecomposer ''U3'']
     (wire_nodes 0 [U3Gate_0_0_pi]) (wire_nodes 0 [U3Gate_0_0_pi]) =
     Inr (wire_nodes 0 [U3Gate_0_0_pi])"
proof -
  have b: "[OneQubitEulerDecomposer ''U3''] \<noteq> []" "[OneQubitEulerDecomposer ''U1X''] \<noteq> []"
    by simp_all
  note t1 = substituted_iff_accepted[OF b(1) eval_precheck_xzx, of "wire_env z_decomposers"
      "wire_nodes 0 [XGate, U3Gate_0_0_pi, XGate]"]
  note t2 = substituted_iff_accepted[OF b(2) eval_precheck_z, of "wire_env z_decomposers"
      "wire_nodes 0 [U3Gate_0_0_pi]"]
  note t3 = substituted_iff_accepted[OF b(1) eval_precheck_z, of "wire_env z_decomposers"
      "wire_nodes 0 [U3Gate_0_0_pi]"]
  show ?thesis
    using t1 t2 t3 eval_precheck_xzx eval_precheck_z eval_run_body_xzx eval_run_body_z_u1x
      eval_run_body_z_u3
    by simp
qed

text \<open>
  Claim C3. Whatever gate names are configured, the selection raises nothing and the
  selected list holds no two bases with the gate-name set of one contained in the
  gate-name set of the other.
\<close>

theorem selected_bases_no_subset_pair:
  assumes "distinct (map fst tbl)"
  shows "\<exists>sel. init tbl basis_arg = Inr sel \<and>
           (case sel of None \<Rightarrow> True | Some bs \<Rightarrow> no_subset_pair tbl bs)"
proof -
  from init_total[OF assms, of basis_arg] obtain sel where
    s: "init tbl basis_arg = Inr sel"
       "\<forall>bs. sel = Some bs \<longrightarrow> (\<exists>b. basis_arg = Some b \<and> selectable tbl b bs)"
    by blast
  show ?thesis using s selectable_no_subset_pair by (cases sel) auto
qed

theorem selected_bases_no_subset_pair_witness:
  "distinct (map fst example_table) \<and>
   init example_table (Some [''u1'', ''u2'', ''u3'', ''rx'', ''rz'', ''cx'']) =
     Inr (Some [OneQubitEulerDecomposer ''U3'', OneQubitEulerDecomposer ''U1X'',
                OneQubitEulerDecomposer ''ZXZ'']) \<and>
   no_subset_pair example_table
     [OneQubitEulerDecomposer ''U3'', OneQubitEulerDecomposer ''U1X'',
      OneQubitEulerDecomposer ''ZXZ'']"
proof -
  have d: "distinct (map fst example_table)" by (simp add: example_table_def)
  have e: "init example_table (Some [''u1'', ''u2'', ''u3'', ''rx'', ''rz'', ''cx'']) =
     Inr (Some [OneQubitEulerDecomposer ''U3'', OneQubitEulerDecomposer ''U1X'',
                OneQubitEulerDecomposer ''ZXZ''])"
    by (simp add: init_def example_table_def getitem_def list_remove_def)
  show ?thesis
    using selected_bases_no_subset_pair[OF d, of "Some [''u1'', ''u2'', ''u3'', ''rx'', ''rz'', ''cx'']"] d e
    by simp
qed

text \<open>
  Claim C4, as amended. Of two bases of the table with the same gate-name set, both
  fitting the configured gate names, the one evaluated earlier is never in the selected
  list. The one evaluated later is in it when it is the last basis with this gate-name
  set and no fitting basis has a strictly larger one.
\<close>

theorem later_basis_with_same_gates_supersedes:
  assumes "distinct (map fst tbl)"
    and "tbl = pre @ (later, later_gates) # post"
    and "(earlier, earlier_gates) \<in> set pre"
    and "set earlier_gates = set later_gates"
    and "set later_gates \<subseteq> set basis_arg"
    and "basis_arg \<noteq> []"
  shows "\<exists>bs. init tbl (Some basis_arg) = Inr (Some bs) \<and>
     OneQubitEulerDecomposer earlier \<notin> set bs \<and>
     ((\<forall>(m, h) \<in> set tbl. set h \<subseteq> set basis_arg \<longrightarrow> \<not> set later_gates \<subset> set h) \<and>
      (\<forall>(m, h) \<in> set post. set h \<noteq> set later_gates) \<longrightarrow>
      OneQubitEulerDecomposer later \<in> set bs)"
proof -
  from select_tied[OF assms(1-5)] obtain bs where
    b: "select tbl basis_arg tbl [] = Inr bs" "OneQubitEulerDecomposer earlier \<notin> set bs"
       "(\<forall>(m, h) \<in> set tbl. set h \<subseteq> set basis_arg \<longrightarrow> \<not> set later_gates \<subset> set h) \<and>
        (\<forall>(m, h) \<in> set post. set h \<noteq> set later_gates) \<longrightarrow>
        OneQubitEulerDecomposer later \<in> set bs"
    by blast
  have "init tbl (Some basis_arg) = Inr (Some bs)"
    using b(1) assms(6) by (simp add: init_def)
  then show ?thesis using b(2,3) by blast
qed

theorem later_basis_with_same_gates_supersedes_witness:
  "distinct (map fst tied_table_with_u3) \<and>
   tied_table_with_u3 = [(''ZXZ'', [''rz'', ''rx'']), (''U3'', [''u3''])] @ (''XZX'', [''rx'', ''rz'']) # [] \<and>
   (''ZXZ'', [''rz'', ''rx'']) \<in> set [(''ZXZ'', [''rz'', ''rx'']), (''U3'', [''u3''])] \<and>
   set [''rz'', ''rx''] = set [''rx'', ''rz''] \<and>
   set [''rx'', ''rz''] \<subseteq> set [''u3'', ''rz'', ''rx'', ''cx''] \<and>
   init tied_table_with_u3 (Some [''u3'', ''rz'', ''rx'', ''cx'']) =
     Inr (Some [OneQubitEulerDecomposer ''U3'', OneQubitEulerDecomposer ''XZX'']) \<and>
   OneQubitEulerDecomposer ''ZXZ'' \<notin> set [OneQubitEulerDecomposer ''U3'', OneQubitEulerDecomposer ''XZX''] \<and>
   OneQubitEulerDecomposer ''XZX'' \<in> set [OneQubitEulerDecomposer ''U3'', OneQubitEulerDecomposer ''XZX'']"
proof -
  have 1: "distinct (map fst tied_table_with_u3)" by (simp add: tied_table_with_u3_def)
  have 2: "tied_table_with_u3 =
      [(''ZXZ'', [''rz'', ''rx'']), (''U3'', [''u3''])] @ (''XZX'', [''rx'', ''rz'']) # []"
    by (simp add: tied_table_with_u3_def)
  have 3: "(''ZXZ'', [''rz'', ''rx'']) \<in> set [(''ZXZ'', [''rz'', ''rx'']), (''U3'', [''u3''])]"
    by simp
  have 4: "set [''rz'', ''rx''] = set [''rx'', ''rz'']" by auto
  have 5: "set [''rx'', ''rz''] \<subseteq> set [''u3'', ''rz'', ''rx'', ''cx'']" by simp
  have 6: "[''u3'', ''rz'', ''rx'', ''cx''] \<noteq> []" by simp
  show ?thesis
    using later_basis_with_same_gates_supersedes[OF 1 2 3 4 5 6] 1 2 3 4 5
      eval_init_tied_with_u3
    by simp
qed

theorem first_of_tied_bases_discarded_counterexample:
  "tied_table = [(''ZXZ'', [''rz'', ''rx'']), (''XZX'', [''rx'', ''rz''])] \<and>
   set [''rz'', ''rx''] = set [''rx'', ''rz''] \<and>
   set [''rz'', ''rx''] \<subseteq> set [''rz'', ''rx'', ''cx''] \<and>
   init tied_table (Some [''rz'', ''rx'', ''cx'']) = Inr (Some [OneQubitEulerDecomposer ''XZX'']) \<and>
   OneQubitEulerDecomposer ''ZXZ'' \<notin> set [OneQubitEulerDecomposer ''XZX'']"
proof -
  have 1: "set [''rz'', ''rx''] = set [''rx'', ''rz'']" by auto
  have 2: "init tied_table (Some [''rz'', ''rx'', ''cx'']) =
      Inr (Some [OneQubitEulerDecomposer ''XZX''])"
    by (simp add: init_def tied_table_def getitem_def list_remove_def)
  show ?thesis using 1 2 by (simp add: tied_table_def)
qed

text \<open>
  Claim C5. A run of one node whose gate has at least one parameter and a matrix equal
  to the identity, entry for entry: the loop body removes the node and does nothing
  else, and the loop goes on with the next run on the graph without that node.
\<close>

theorem single_identity_gate_removed:
  assumes "params (op n) \<noteq> []" and "to_matrix (op n) = identity_matrix"
  shows "precheck [n] = Inr (Remove n) \<and>
         run_body e self_basis dag [n] = Inr (remove_op_node e dag n) \<and>
         run_loop e self_basis dag ([n] # runs) =
           run_loop e self_basis (remove_op_node e dag n) runs"
proof -
  have p: "precheck [n] = Inr (Remove n)"
    using assms by (simp add: precheck_def array_equal_def)
  then have b: "run_body e self_basis dag [n] = Inr (remove_op_node e dag n)"
    by (simp add: run_body_def)
  show ?thesis using p b by simp
qed

theorem single_identity_gate_removed_witness:
  "params (op \<lparr>node_id = 0, op = U3Gate_0_0_0\<rparr>) \<noteq> [] \<and>
   to_matrix (op \<lparr>node_id = 0, op = U3Gate_0_0_0\<rparr>) = identity_matrix \<and>
   precheck [\<lparr>node_id = 0, op = U3Gate_0_0_0\<rparr>] = Inr (Remove \<lparr>node_id = 0, op = U3Gate_0_0_0\<rparr>) \<and>
   run_body (wire_env always_u3_identity) [OneQubitEulerDecomposer ''U3'']
     [\<lparr>node_id = 0, op = U3Gate_0_0_0\<rparr>] [\<lparr>node_id = 0, op = U3Gate_0_0_0\<rparr>] = Inr [] \<and>
   run_loop (wire_env always_u3_identity) [OneQubitEulerDecomposer ''U3'']
     [\<lparr>node_id = 0, op = U3Gate_0_0_0\<rparr>] [[\<lparr>node_id = 0, op = U3Gate_0_0_0\<rparr>]] = Inr []"
proof -
  let ?n = "\<lparr>node_id = 0, op = U3Gate_0_0_0\<rparr>"
  have h1: "params (op ?n) \<noteq> []" by (simp add: U3Gate_0_0_0_def)
  have h2: "to_matrix (op ?n) = identity_matrix"
    by (simp add: U3Gate_0_0_0_def identity_matrix_def)
  have rm: "remove_op_node (wire_env always_u3_identity) [?n] ?n = []"
    by (simp add: wire_env_def)
  show ?thesis
    using single_identity_gate_removed[OF h1 h2, of "wire_env always_u3_identity"
        "[OneQubitEulerDecomposer ''U3'']" "[?n]" "[]"] h1 h2 rm
    by simp
qed

text \<open>
  Claim C6, as amended. The test for a single identity gate (line 82) comes first. A run
  of one node that it does not remove, whose gate has parameters when it is a
  \<open>U3Gate\<close>: the flag \<open>single_u3\<close> is set, and candidates are computed, exactly when the
  gate is a \<open>U3Gate\<close> and its first parameter is within \<open>1e-12\<close> of \<open>0\<close> or of \<open>pi/2\<close>
  (absolute tolerance, no relative one); otherwise the run is skipped and the graph
  stays as it is.
\<close>

theorem single_u3_flag:
  assumes "\<not> (params (op n) \<noteq> [] \<and> to_matrix (op n) = identity_matrix)"
    and "is_U3Gate (op n) \<longrightarrow> params (op n) \<noteq> []"
  shows "precheck [n] =
           Inr (if is_U3Gate (op n) \<and>
                   (\<bar>hd (params (op n))\<bar> \<le> 1 / 10 ^ 12 \<or>
                    \<bar>hd (params (op n)) - pi / 2\<bar> \<le> 1 / 10 ^ 12)
                then Process True else Skip) \<and>
         (precheck [n] = Inr (Process True) \<longrightarrow>
            run_body e self_basis dag [n] = optimize_run e self_basis dag [n] True) \<and>
         (precheck [n] = Inr Skip \<longrightarrow> run_body e self_basis dag [n] = Inr dag)"
proof -
  have p: "precheck [n] =
           Inr (if is_U3Gate (op n) \<and>
                   (\<bar>hd (params (op n))\<bar> \<le> 1 / 10 ^ 12 \<or>
                    \<bar>hd (params (op n)) - pi / 2\<bar> \<le> 1 / 10 ^ 12)
                then Process True else Skip)"
  proof (cases "params (op n)")
    case Nil
    then show ?thesis using assms(2) by (simp add: precheck_def)
  next
    case (Cons p ps)
    then have "to_matrix (op n) \<noteq> identity_matrix" using assms(1) by simp
    then show ?thesis using Cons
      by (simp add: precheck_def array_equal_def isclose_0_or_half_pi_def isclose_def)
  qed
  show ?thesis using p by (simp add: run_body_def)
qed

theorem single_u3_flag_witness:
  "\<not> (params (op \<lparr>node_id = 0, op = U3Gate_0_0_pi\<rparr>) \<noteq> [] \<and>
      to_matrix (op \<lparr>node_id = 0, op = U3Gate_0_0_pi\<rparr>) = identity_matrix) \<and>
   precheck [\<lparr>node_id = 0, op = U3Gate_0_0_pi\<rparr>] = Inr (Process True) \<and>
   \<not> (params (op \<lparr>node_id = 0, op = U3Gate_pi_0_pi\<rparr>) \<noteq> [] \<and>
      to_matrix (op \<lparr>node_id = 0, op = U3Gate_pi_0_pi\<rparr>) = identity_matrix) \<and>
   precheck [\<lparr>node_id = 0, op = U3Gate_pi_0_pi\<rparr>] = Inr Skip \<and>
   run_body (wire_env z_decomposers) [OneQubitEulerDecomposer ''U1X'']
     [\<lparr>node_id = 0, op = U3Gate_pi_0_pi\<rparr>] [\<lparr>node_id = 0, op = U3Gate_pi_0_pi\<rparr>] =
     Inr [\<lparr>node_id = 0, op = U3Gate_pi_0_pi\<rparr>]"
proof -
  let ?z = "\<lparr>node_id = 0, op = U3Gate_0_0_pi\<rparr>"
  let ?x = "\<lparr>node_id = 0, op = U3Gate_pi_0_pi\<rparr>"
  have z1: "\<not> (params (op ?z) \<noteq> [] \<and> to_matrix (op ?z) = identity_matrix)"
    by (simp add: U3Gate_0_0_pi_def identity_matrix_def)
  have z2: "is_U3Gate (op ?z) \<longrightarrow> params (op ?z) \<noteq> []" by (simp add: U3Gate_0_0_pi_def)
  have x1: "\<not> (params (op ?x) \<noteq> [] \<and> to_matrix (op ?x) = identity_matrix)"
    by (simp add: U3Gate_pi_0_pi_def identity_matrix_def)
  have x2: "is_U3Gate (op ?x) \<longrightarrow> params (op ?x) \<noteq> []" by (simp add: U3Gate_pi_0_pi_def)
  have zp: "hd (params (op ?z)) = 0" "is_U3Gate (op ?z)" by (simp_all add: U3Gate_0_0_pi_def)
  have xp: "hd (params (op ?x)) = pi" "is_U3Gate (op ?x)" by (simp_all add: U3Gate_pi_0_pi_def)
  show ?thesis
    using single_u3_flag[OF z1 z2, of "wire_env z_decomposers" "[OneQubitEulerDecomposer ''U1X'']" "[?z]"]
          single_u3_flag[OF x1 x2, of "wire_env z_decomposers" "[OneQubitEulerDecomposer ''U1X'']" "[?x]"]
          z1 x1 zp xp pi_not_close
    by simp
qed

theorem identity_u3_removed_not_flagged_counterexample:
  "is_U3Gate (op \<lparr>node_id = 0, op = U3Gate_0_0_0\<rparr>) \<and>
   hd (params (op \<lparr>node_id = 0, op = U3Gate_0_0_0\<rparr>)) = 0 \<and>
   isclose_0_or_half_pi (hd (params (op \<lparr>node_id = 0, op = U3Gate_0_0_0\<rparr>))) \<and>
   precheck [\<lparr>node_id = 0, op = U3Gate_0_0_0\<rparr>] =
     Inr (Remove \<lparr>node_id = 0, op = U3Gate_0_0_0\<rparr>) \<and>
   precheck [\<lparr>node_id = 0, op = U3Gate_0_0_0\<rparr>] \<noteq> Inr (Process True)"
  by (simp add: precheck_def U3Gate_0_0_0_def array_equal_def identity_matrix_def
      isclose_0_or_half_pi_def isclose_def)

text \<open>
  Claim C7. For a run that reaches line 93 with a non-empty \<open>self.basis\<close>: there is one
  candidate for each decomposer, at the decomposer's position and computed from the
  run's combined operator; the chosen candidate is the one of a decomposer \<open>d\<close> such
  that every earlier decomposer's candidate is strictly longer and no later one's is
  shorter; and it is this candidate that the acceptance test and the substitution use.
\<close>

theorem one_candidate_each_first_shortest_chosen:
  assumes "self_basis \<noteq> []" and "precheck r = Inr (Process single_u3)"
  shows "\<exists>operator.
     run_operator e r = Inr operator \<and>
     length (new_circs e self_basis operator) = length self_basis \<and>
     (\<forall>i < length self_basis.
        new_circs e self_basis operator ! i = decompose e (self_basis ! i) operator) \<and>
     (\<exists>pre d post.
        self_basis = pre @ d # post \<and>
        min_key_len (new_circs e self_basis operator) = Inr (decompose e d operator) \<and>
        (\<forall>d' \<in> set pre. length (decompose e d operator) < length (decompose e d' operator)) \<and>
        (\<forall>d' \<in> set post. length (decompose e d operator) \<le> length (decompose e d' operator)) \<and>
        run_body e self_basis dag r =
          (if length (decompose e d operator) < length r \<or>
              (single_u3 \<and> first_is_not_u3 (decompose e d operator))
           then substitute_run e dag r (decompose e d operator) else Inr dag))"
proof -
  from run_body_Process[OF assms, of e dag] obtain operator new_circ where
    p: "run_operator e r = Inr operator"
       "min_key_len (new_circs e self_basis operator) = Inr new_circ"
       "run_body e self_basis dag r =
         (if length new_circ < length r \<or> (single_u3 \<and> first_is_not_u3 new_circ)
          then substitute_run e dag r new_circ else Inr dag)"
    by blast
  let ?f = "\<lambda>d. decompose e d operator"
  have nc: "new_circs e self_basis operator = map ?f self_basis" by (simp add: new_circs_def)
  have ne: "map ?f self_basis \<noteq> []" using assms(1) by simp
  from min_key_len_split[OF ne] obtain pre' c post' where
    s: "map ?f self_basis = pre' @ c # post'" "min_key_len (map ?f self_basis) = Inr c"
       "\<forall>y \<in> set pre'. length c < length y" "\<forall>y \<in> set post'. length c \<le> length y"
    by blast
  from s(1) obtain pre rest where
    a: "self_basis = pre @ rest" "map ?f pre = pre'" "map ?f rest = c # post'"
    by (auto simp: map_eq_append_conv)
  from a(3) obtain d post where
    b: "rest = d # post" "?f d = c" "map ?f post = post'"
    by (auto simp: map_eq_Cons_conv)
  have c: "new_circ = ?f d" using p(2) s(2) b(2) nc by simp
  have 1: "self_basis = pre @ d # post" using a(1) b(1) by simp
  have 2: "min_key_len (new_circs e self_basis operator) = Inr (?f d)" using p(2) c by simp
  have 3: "\<forall>d' \<in> set pre. length (?f d) < length (?f d')" using s(3) a(2) b(2) by auto
  have 4: "\<forall>d' \<in> set post. length (?f d) \<le> length (?f d')" using s(4) b(2,3) by auto
  have 5: "run_body e self_basis dag r =
          (if length (?f d) < length r \<or> (single_u3 \<and> first_is_not_u3 (?f d))
           then substitute_run e dag r (?f d) else Inr dag)"
    using p(3) c by simp
  have 6: "length (new_circs e self_basis operator) = length self_basis" by (simp add: nc)
  have 7: "\<forall>i < length self_basis.
        new_circs e self_basis operator ! i = decompose e (self_basis ! i) operator"
    by (simp add: nc)
  have 8: "\<exists>pre d post.
        self_basis = pre @ d # post \<and>
        min_key_len (new_circs e self_basis operator) = Inr (decompose e d operator) \<and>
        (\<forall>d' \<in> set pre. length (decompose e d operator) < length (decompose e d' operator)) \<and>
        (\<forall>d' \<in> set post. length (decompose e d operator) \<le> length (decompose e d' operator)) \<and>
        run_body e self_basis dag r =
          (if length (decompose e d operator) < length r \<or>
              (single_u3 \<and> first_is_not_u3 (decompose e d operator))
           then substitute_run e dag r (decompose e d operator) else Inr dag)"
    by (rule exI[of _ pre], rule exI[of _ d], rule exI[of _ post]) (intro conjI 1 2 3 4 5)
  show ?thesis
    by (rule exI[of _ operator]) (intro conjI p(1) 6 7 8)
qed

theorem one_candidate_each_first_shortest_chosen_witness:
  "[OneQubitEulerDecomposer ''XYX'', OneQubitEulerDecomposer ''U1X'', OneQubitEulerDecomposer ''ZYZ''] \<noteq> [] \<and>
   precheck (wire_nodes 0 [XGate, U3Gate_0_0_pi, XGate]) = Inr (Process False) \<and>
   run_operator (wire_env z_decomposers) (wire_nodes 0 [XGate, U3Gate_0_0_pi, XGate]) =
     Inr [[- 1, 0], [0, 1]] \<and>
   new_circs (wire_env z_decomposers)
     [OneQubitEulerDecomposer ''XYX'', OneQubitEulerDecomposer ''U1X'', OneQubitEulerDecomposer ''ZYZ'']
     [[- 1, 0], [0, 1]] =
     [[RYGate_pi, RXGate_pi], [U1Gate_pi], [RZGate_pi]] \<and>
   min_key_len [[RYGate_pi, RXGate_pi], [U1Gate_pi], [RZGate_pi]] = Inr [U1Gate_pi] \<and>
   run_body (wire_env z_decomposers)
     [OneQubitEulerDecomposer ''XYX'', OneQubitEulerDecomposer ''U1X'', OneQubitEulerDecomposer ''ZYZ'']
     (wire_nodes 0 [XGate, U3Gate_0_0_pi, XGate]) (wire_nodes 0 [XGate, U3Gate_0_0_pi, XGate]) =
     Inr (wire_nodes 3 [U1Gate_pi])"
proof -
  have b: "[OneQubitEulerDecomposer ''XYX'', OneQubitEulerDecomposer ''U1X'',
            OneQubitEulerDecomposer ''ZYZ''] \<noteq> []" by simp
  note t = one_candidate_each_first_shortest_chosen[OF b eval_precheck_xzx,
      of "wire_env z_decomposers" "wire_nodes 0 [XGate, U3Gate_0_0_pi, XGate]"]
  have m: "min_key_len [[RYGate_pi, RXGate_pi], [U1Gate_pi], [RZGate_pi]] = Inr [U1Gate_pi]"
    by simp
  show ?thesis
    using t eval_precheck_xzx eval_operator_xzx[of z_decomposers] eval_new_circs_xzx m
      eval_run_body_xzx_three
    by simp
qed

text \<open>
  Claim C8. When \<open>self.basis\<close> is \<open>None\<close> or empty the pass returns the graph it was
  given, and that is what the constructor leaves when no basis is configured or no
  Euler basis of the table fits the configured gate names.
\<close>

theorem no_decomposer_returns_graph_unchanged:
  "(self_basis = None \<or> self_basis = Some [] \<longrightarrow> run e self_basis dag = Inr dag) \<and>
   (fitting tbl basis_arg = [] \<longrightarrow>
      (init tbl basis_arg = Inr None \<or> init tbl basis_arg = Inr (Some [])) \<and>
      (\<forall>sel. init tbl basis_arg = Inr sel \<longrightarrow> run e sel dag = Inr dag))"
proof -
  have 1: "self_basis = None \<or> self_basis = Some [] \<longrightarrow> run e self_basis dag = Inr dag"
    by (auto simp: run_def)
  have 2: "init tbl basis_arg = Inr None \<or> init tbl basis_arg = Inr (Some [])"
    if f: "fitting tbl basis_arg = []"
  proof (cases basis_arg)
    case None
    then show ?thesis by (simp add: init_def)
  next
    case (Some b)
    have "\<forall>(n, g) \<in> set tbl. \<not> set g \<subseteq> set b"
      using f Some by (auto simp: fitting_def filter_empty_conv)
    then have "select tbl b tbl [] = Inr []" by (rule select_none_fitting)
    then show ?thesis using Some by (simp add: init_def)
  qed
  have 3: "\<forall>sel. init tbl basis_arg = Inr sel \<longrightarrow> run e sel dag = Inr dag"
    if f: "fitting tbl basis_arg = []"
    using 2[OF f] by (auto simp: run_def)
  show ?thesis using 1 2 3 by blast
qed

theorem no_decomposer_returns_graph_unchanged_witness:
  "fitting example_table (Some [''cx'', ''h'']) = [] \<and>
   init example_table (Some [''cx'', ''h'']) = Inr (Some []) \<and>
   run (wire_env always_u3_identity) (Some []) (wire_nodes 0 [XGate, XGate]) =
     Inr (wire_nodes 0 [XGate, XGate]) \<and>
   run (wire_env always_u3_identity) None (wire_nodes 0 [XGate, XGate]) =
     Inr (wire_nodes 0 [XGate, XGate])"
proof -
  have f: "fitting example_table (Some [''cx'', ''h'']) = []"
    by (simp add: fitting_def example_table_def)
  have i: "init example_table (Some [''cx'', ''h'']) = Inr (Some [])"
    by (simp add: init_def example_table_def)
  show ?thesis
    using no_decomposer_returns_graph_unchanged
            [of "Some []" "wire_env always_u3_identity" "wire_nodes 0 [XGate, XGate]"
                example_table "Some [''cx'', ''h'']"]
          no_decomposer_returns_graph_unchanged
            [of None "wire_env always_u3_identity" "wire_nodes 0 [XGate, XGate]"
                example_table "Some [''cx'', ''h'']"]
          f i
    by simp
qed




text \<open>
  Claim C10. The flag \<open>single_u3\<close> is set only for a run of length one. With it set
  and the candidate not strictly shorter than the run, the candidate has a first gate,
  so the acceptance test returns a truth value; and neither the loop body nor the pass
  ever raises the \<open>IndexError\<close> of \<^verbatim>\<open>new_circ.data[0]\<close>.
\<close>

theorem new_circ_subscript_in_bounds:
  "(precheck r = Inr (Process True) \<longrightarrow> length r = 1) \<and>
   (length r = 1 \<and> \<not> length c < length r \<longrightarrow>
      c \<noteq> [] \<and> accept r True c = Inr (first_is_not_u3 c)) \<and>
   (precheck r = Inr (Process single_u3) \<longrightarrow>
      accept r single_u3 c = Inr (length c < length r \<or> (single_u3 \<and> first_is_not_u3 c))) \<and>
   run_body e self_basis dag r \<noteq> Inl (IndexError NewCircData0) \<and>
   run e sb dag \<noteq> Inl (IndexError NewCircData0)"
proof -
  have 1: "precheck r = Inr (Process True) \<longrightarrow> length r = 1"
    using precheck_Process_True by blast
  have 2: "length r = 1 \<and> \<not> length c < length r \<longrightarrow>
      c \<noteq> [] \<and> accept r True c = Inr (first_is_not_u3 c)"
    by (cases c) (auto simp: accept_def first_is_not_u3_def)
  have 3: "precheck r = Inr (Process single_u3) \<longrightarrow>
      accept r single_u3 c = Inr (length c < length r \<or> (single_u3 \<and> first_is_not_u3 c))"
  proof
    assume p: "precheck r = Inr (Process single_u3)"
    have "single_u3 \<longrightarrow> length r = 1"
      using p by (cases single_u3) (simp_all add: precheck_Process_True)
    then show "accept r single_u3 c = Inr (length c < length r \<or> (single_u3 \<and> first_is_not_u3 c))"
      by (rule accept_cases)
  qed
  have 5: "run e sb dag \<noteq> Inl (IndexError NewCircData0)"
    by (cases sb) (simp_all add: run_def run_loop_no_NewCircData0)
  show ?thesis using 1 2 3 5 run_body_no_NewCircData0[of e self_basis dag r] by blast
qed

theorem new_circ_subscript_in_bounds_witness:
  "precheck [\<lparr>node_id = 0, op = U3Gate_0_0_pi\<rparr>] = Inr (Process True) \<and>
   length [\<lparr>node_id = 0, op = U3Gate_0_0_pi\<rparr>] = 1 \<and>
   \<not> length [U3Gate_0_0_pi] < length [\<lparr>node_id = 0, op = U3Gate_0_0_pi\<rparr>] \<and>
   accept [\<lparr>node_id = 0, op = U3Gate_0_0_pi\<rparr>] True [U3Gate_0_0_pi] = Inr False \<and>
   accept [\<lparr>node_id = 0, op = U3Gate_0_0_pi\<rparr>] True [] = Inr True \<and>
   accept [\<lparr>node_id = 0, op = U3Gate_0_0_pi\<rparr>] True [U1Gate_pi] = Inr True"
proof -
  let ?r = "[\<lparr>node_id = 0, op = U3Gate_0_0_pi\<rparr>]"
  have p: "precheck ?r = Inr (Process True)"
    by (simp add: precheck_def U3Gate_0_0_pi_def array_equal_def identity_matrix_def
        isclose_0_or_half_pi_def isclose_def)
  have f: "\<not> first_is_not_u3 [U3Gate_0_0_pi]" "first_is_not_u3 [U1Gate_pi]" "\<not> first_is_not_u3 []"
    by (simp_all add: first_is_not_u3_def U3Gate_0_0_pi_def U1Gate_pi_def)
  show ?thesis
    using new_circ_subscript_in_bounds[of ?r "[U3Gate_0_0_pi]" True "wire_env z_decomposers" "[]" "[]" None]
          new_circ_subscript_in_bounds[of ?r "[]" True "wire_env z_decomposers" "[]" "[]" None]
          new_circ_subscript_in_bounds[of ?r "[U1Gate_pi]" True "wire_env z_decomposers" "[]" "[]" None]
          p f
    by simp
qed

end
